theory Spec2Isabelle
  imports Complex_Main "HOL-Library.Word"
begin

unbundle bit_operations_syntax

section \<open>JavaScript 32-bit integer operators\<close>

text \<open>
  The bitwise operators of JavaScript convert their operands to 32-bit two's complement
  integers (ToInt32: the value modulo \<open>2 ^ 32\<close>), operate on the 32 bits and give the result
  back as a signed number. Integer-valued numbers are modelled as \<open>int\<close>.
\<close>

definition toInt32 :: "int \<Rightarrow> 32 word" where
  "toInt32 v = word_of_int v"

text \<open>\<^verbatim>\<open>a >> n\<close>: sign-propagating right shift.\<close>

definition js_shr :: "int \<Rightarrow> nat \<Rightarrow> int" where
  "js_shr a n = sint (signed_drop_bit n (toInt32 a))"

text \<open>\<^verbatim>\<open>a << n\<close>: left shift.\<close>

definition js_shl :: "int \<Rightarrow> nat \<Rightarrow> int" where
  "js_shl a n = sint (push_bit n (toInt32 a))"

text \<open>\<^verbatim>\<open>a & b\<close>: bitwise and.\<close>

definition js_and :: "int \<Rightarrow> int \<Rightarrow> int" where
  "js_and a b = sint (toInt32 a AND toInt32 b)"

text \<open>\<^verbatim>\<open>a | b\<close>: bitwise or.\<close>

definition js_or :: "int \<Rightarrow> int \<Rightarrow> int" where
  "js_or a b = sint (toInt32 a OR toInt32 b)"

section \<open>types.js: the CFF number encoders\<close>

text \<open>\<^verbatim>\<open>encode.NUMBER16\<close>: \<^verbatim>\<open>[28, (v >> 8) & 0xFF, v & 0xFF]\<close>.\<close>

definition encode_NUMBER16 :: "int \<Rightarrow> int list" where
  "encode_NUMBER16 v = [28, js_and (js_shr v 8) 0xFF, js_and v 0xFF]"

text \<open>\<^verbatim>\<open>encode.NUMBER32\<close>.\<close>

definition encode_NUMBER32 :: "int \<Rightarrow> int list" where
  "encode_NUMBER32 v =
     [29, js_and (js_shr v 24) 0xFF, js_and (js_shr v 16) 0xFF,
      js_and (js_shr v 8) 0xFF, js_and v 0xFF]"

text \<open>\<^verbatim>\<open>encode.NUMBER\<close>: the branches in the order of the source.\<close>

definition encode_NUMBER :: "int \<Rightarrow> int list" where
  "encode_NUMBER v =
     (if v \<ge> -107 \<and> v \<le> 107 then [v + 139]
      else if v \<ge> 108 \<and> v \<le> 1131 then
        (let v2 = v - 108;
             b0 = js_and (js_shr v2 8) 0xFF;
             b1 = v2 - js_shl b0 8
         in [b0 + 247, b1])
      else if v \<ge> -1131 \<and> v \<le> -108 then
        (let v2 = - v - 108;
             b0 = js_and (js_shr v2 8) 0xFF;
             b1 = v2 - js_shl b0 8
         in [b0 + 251, b1])
      else if v \<ge> -32768 \<and> v \<le> 32767 then encode_NUMBER16 v
      else encode_NUMBER32 v)"

section \<open>Errors\<close>

text \<open>
  Every \<^verbatim>\<open>throw\<close> of the source is a value: \<open>RangeError\<close> is what a \<^verbatim>\<open>DataView\<close> getter
  raises when the read does not fit in the buffer, \<open>TypeError\<close> is what reading a property of
  \<^verbatim>\<open>undefined\<close> or \<^verbatim>\<open>null\<close> raises, and \<open>Error msg\<close> is \<^verbatim>\<open>throw new Error(msg)\<close>.
\<close>

datatype error = RangeError | TypeError | Error string

definition bindR :: "error + 'a \<Rightarrow> ('a \<Rightarrow> error + 'b) \<Rightarrow> error + 'b" where
  "bindR m f = (case m of Inl e \<Rightarrow> Inl e | Inr v \<Rightarrow> f v)"

lemma bindR_cong [fundef_cong]:
  "m = m' \<Longrightarrow> (\<And>v. m' = Inr v \<Longrightarrow> f v = f' v) \<Longrightarrow> bindR m f = bindR m' f'"
  by (auto simp: bindR_def split: sum.splits)

lemma bindR_simps [simp]: "bindR (Inl e) f = Inl e" "bindR (Inr v) f = f v"
  by (simp_all add: bindR_def)

lemma bindR_eq_Inr: "bindR m f = Inr r \<longleftrightarrow> (\<exists>v. m = Inr v \<and> f v = Inr r)"
  by (cases m) simp_all

text \<open>\<^verbatim>\<open>checkArgument(predicate, message)\<close>.\<close>

definition checkArgument :: "bool \<Rightarrow> string \<Rightarrow> error + unit" where
  "checkArgument predicate message = (if \<not> predicate then Inl (Error message) else Inr ())"

lemma checkArgument_Inr: "checkArgument b msg = Inr u \<longleftrightarrow> b"
  by (simp add: checkArgument_def)

section \<open>The byte reader of opentype.js\<close>

text \<open>
  A \<^verbatim>\<open>DataView\<close> over the whole buffer is the list of its bytes. Offsets are sums of unsigned
  fields and so natural numbers. All reads are big-endian; a read that does not fit raises.
\<close>

type_synonym dataView = "8 word list"

definition getUint8 :: "dataView \<Rightarrow> nat \<Rightarrow> error + int" where
  "getUint8 dataView offset =
     (if offset + 1 \<le> length dataView then Inr (uint (dataView ! offset)) else Inl RangeError)"

definition getInt8 :: "dataView \<Rightarrow> nat \<Rightarrow> error + int" where
  "getInt8 dataView offset =
     (if offset + 1 \<le> length dataView then Inr (sint (dataView ! offset)) else Inl RangeError)"

definition getUint16 :: "dataView \<Rightarrow> nat \<Rightarrow> error + int" where
  "getUint16 dataView offset =
     (if offset + 2 \<le> length dataView
      then Inr (uint (dataView ! offset) * 256 + uint (dataView ! (offset + 1)))
      else Inl RangeError)"

definition getInt16 :: "dataView \<Rightarrow> nat \<Rightarrow> error + int" where
  "getInt16 dataView offset =
     (if offset + 2 \<le> length dataView
      then (let u = uint (dataView ! offset) * 256 + uint (dataView ! (offset + 1))
            in Inr (if u \<ge> 32768 then u - 65536 else u))
      else Inl RangeError)"

definition getUint32 :: "dataView \<Rightarrow> nat \<Rightarrow> error + int" where
  "getUint32 dataView offset =
     (if offset + 4 \<le> length dataView
      then Inr (uint (dataView ! offset) * 16777216 + uint (dataView ! (offset + 1)) * 65536
                + uint (dataView ! (offset + 2)) * 256 + uint (dataView ! (offset + 3)))
      else Inl RangeError)"

definition getByte :: "dataView \<Rightarrow> nat \<Rightarrow> error + int" where
  "getByte dataView offset = getUint8 dataView offset"

definition getUShort :: "dataView \<Rightarrow> nat \<Rightarrow> error + int" where
  "getUShort dataView offset = getUint16 dataView offset"

definition getShort :: "dataView \<Rightarrow> nat \<Rightarrow> error + int" where
  "getShort dataView offset = getInt16 dataView offset"

definition getULong :: "dataView \<Rightarrow> nat \<Rightarrow> error + int" where
  "getULong dataView offset = getUint32 dataView offset"

text \<open>
  \<^verbatim>\<open>getTag\<close>: four characters, each \<^verbatim>\<open>String.fromCharCode(dataView.getInt8(i))\<close>. The string is
  modelled as the list of its UTF-16 code units (\<^verbatim>\<open>fromCharCode\<close> reduces modulo \<open>2 ^ 16\<close>).
\<close>

definition fromCharCode :: "int \<Rightarrow> nat" where
  "fromCharCode c = nat (c mod 65536)"

definition getTag :: "dataView \<Rightarrow> nat \<Rightarrow> error + nat list" where
  "getTag dataView offset =
     bindR (getInt8 dataView offset) (\<lambda>c0.
     bindR (getInt8 dataView (offset + 1)) (\<lambda>c1.
     bindR (getInt8 dataView (offset + 2)) (\<lambda>c2.
     bindR (getInt8 dataView (offset + 3)) (\<lambda>c3.
       Inr [fromCharCode c0, fromCharCode c1, fromCharCode c2, fromCharCode c3]))))"

text \<open>The stateful \<^verbatim>\<open>Parser\<close>: each read returns the value and the advanced parser.\<close>

record parser =
  dataView :: dataView
  offset :: nat
  relativeOffset :: nat

definition Parser :: "dataView \<Rightarrow> nat \<Rightarrow> parser" where
  "Parser data start = \<lparr>dataView = data, offset = start, relativeOffset = 0\<rparr>"

definition parseByte :: "parser \<Rightarrow> error + (int \<times> parser)" where
  "parseByte p =
     bindR (getByte (dataView p) (offset p + relativeOffset p)) (\<lambda>v.
       Inr (v, p\<lparr>relativeOffset := relativeOffset p + 1\<rparr>))"

definition parseUShort :: "parser \<Rightarrow> error + (int \<times> parser)" where
  "parseUShort p =
     bindR (getUShort (dataView p) (offset p + relativeOffset p)) (\<lambda>v.
       Inr (v, p\<lparr>relativeOffset := relativeOffset p + 2\<rparr>))"

definition parseShort :: "parser \<Rightarrow> error + (int \<times> parser)" where
  "parseShort p =
     bindR (getShort (dataView p) (offset p + relativeOffset p)) (\<lambda>v.
       Inr (v, p\<lparr>relativeOffset := relativeOffset p + 2\<rparr>))"

definition parseULong :: "parser \<Rightarrow> error + (int \<times> parser)" where
  "parseULong p =
     bindR (getULong (dataView p) (offset p + relativeOffset p)) (\<lambda>v.
       Inr (v, p\<lparr>relativeOffset := relativeOffset p + 4\<rparr>))"

text \<open>\<^verbatim>\<open>p.skip('uShort', amount)\<close>: the only type the callers skip is \<^verbatim>\<open>uShort\<close> (width 2).\<close>

definition skip_uShort :: "parser \<Rightarrow> nat \<Rightarrow> parser" where
  "skip_uShort p amount = p\<lparr>relativeOffset := relativeOffset p + 2 * amount\<rparr>"

text \<open>A counted loop \<^verbatim>\<open>for (i = 0; i < n; i += 1) { xs.push(read()); }\<close>.\<close>

primrec parseMany :: "nat \<Rightarrow> (parser \<Rightarrow> error + (int \<times> parser)) \<Rightarrow> parser \<Rightarrow>
    error + (int list \<times> parser)" where
  "parseMany 0 rd p = Inr ([], p)"
| "parseMany (Suc n) rd p =
     bindR (rd p) (\<lambda>(v, p').
     bindR (parseMany n rd p') (\<lambda>(vs, p'').
       Inr (v # vs, p'')))"

text \<open>\<^verbatim>\<open>isBitSet(b, bitIndex)\<close>: \<^verbatim>\<open>((b >> bitIndex) & 1) === 1\<close>.\<close>

definition isBitSet :: "int \<Rightarrow> nat \<Rightarrow> bool" where
  "isBitSet b bitIndex = (js_and (js_shr b bitIndex) 1 = 1)"

lemma uint_gt_minus_one: "- 1 < uint (w :: 'a::len word)"
  using uint_ge_0 [of w] by linarith

lemma parseByte_Inr:
  "parseByte p = Inr (v, p') \<longleftrightarrow>
     offset p + relativeOffset p < length (dataView p) \<and>
     v = uint (dataView p ! (offset p + relativeOffset p)) \<and>
     p' = p\<lparr>relativeOffset := relativeOffset p + 1\<rparr>"
  by (auto simp: parseByte_def getByte_def getUint8_def)

lemma parseUShort_Inr:
  "parseUShort p = Inr (v, p') \<longleftrightarrow>
     offset p + relativeOffset p + 2 \<le> length (dataView p) \<and>
     v = uint (dataView p ! (offset p + relativeOffset p)) * 256
         + uint (dataView p ! (offset p + relativeOffset p + 1)) \<and>
     p' = p\<lparr>relativeOffset := relativeOffset p + 2\<rparr>"
  by (auto simp: parseUShort_def getUShort_def getUint16_def)

lemma parseShort_Inr:
  "parseShort p = Inr (v, p') \<Longrightarrow>
     offset p + relativeOffset p + 2 \<le> length (dataView p) \<and>
     p' = p\<lparr>relativeOffset := relativeOffset p + 2\<rparr>"
  by (auto simp: parseShort_def getShort_def getInt16_def Let_def split: if_splits)

section \<open>The glyf table of opentype.js\<close>

text \<open>
  A contour point and a component of a composite glyph, as \<^verbatim>\<open>parseGlyph\<close> builds them.
  (The fields \<^verbatim>\<open>x\<close> and \<^verbatim>\<open>y\<close> of a point are named \<open>point_x\<close> and \<open>point_y\<close>.)
\<close>

record point =
  point_x :: int
  point_y :: int
  onCurve :: bool
  lastPointOfContour :: bool

record component =
  glyphIndex :: int
  dx :: int
  dy :: int

text \<open>
  A glyph object. The property \<^verbatim>\<open>points\<close> is optional (\<open>None\<close> is \<^verbatim>\<open>undefined\<close>): the code tests
  it for truthiness, and an empty array is truthy. \<^verbatim>\<open>isComposite\<close> is \<open>False\<close> where the source
  leaves it undefined; \<^verbatim>\<open>components\<close>, \<^verbatim>\<open>endPointIndices\<close> and \<^verbatim>\<open>instructions\<close> are read by no
  code unless they were set, and are empty where the source leaves them undefined. The field
  \<^verbatim>\<open>_length\<close> (\<^verbatim>\<open>undefined + n\<close>, never read) is left out.
\<close>

record glyph =
  index :: nat
  numberOfContours :: int
  xMin :: int
  yMin :: int
  xMax :: int
  yMax :: int
  endPointIndices :: "int list"
  instructionLength :: int
  instructions :: "int list"
  points :: "point list option"
  isComposite :: bool
  components :: "component list"

text \<open>
  The flag stream: \<^verbatim>\<open>for (i = 0; i < numberOfCoordinates; i++)\<close>, where a flag with bit 3 is
  followed by a repeat count and stands for that many more points.
\<close>

function parseFlags :: "parser \<Rightarrow> int \<Rightarrow> int \<Rightarrow> int list \<Rightarrow> error + (int list \<times> parser)" where
  "parseFlags p i numberOfCoordinates flags =
     (if i < numberOfCoordinates then
        bindR (parseByte p) (\<lambda>(flag, p1).
          if isBitSet flag 3 then
            bindR (parseByte p1) (\<lambda>(repeatCount, p2).
              parseFlags p2 (i + repeatCount + 1) numberOfCoordinates
                (flags @ flag # replicate (nat repeatCount) flag))
          else parseFlags p1 (i + 1) numberOfCoordinates (flags @ [flag]))
      else Inr (flags, p))"
  by pat_completeness auto
termination
  by (relation "measure (\<lambda>(p, i, n, flags). nat (n - i))")
    (auto simp: parseByte_Inr uint_gt_minus_one)

declare parseFlags.simps [simp del]

text \<open>\<^verbatim>\<open>_parseGlyphCoordinate(p, flag, previousValue, shortVectorBit, sameBit)\<close>.\<close>

definition parseGlyphCoordinate :: "parser \<Rightarrow> int \<Rightarrow> int \<Rightarrow> nat \<Rightarrow> nat \<Rightarrow> error + (int \<times> parser)" where
  "parseGlyphCoordinate p flag previousValue shortVectorBit sameBit =
     (if isBitSet flag shortVectorBit then
        bindR (parseByte p) (\<lambda>(v, p').
          let v = (if \<not> isBitSet flag sameBit then - v else v)
          in Inr (previousValue + v, p'))
      else if isBitSet flag sameBit then Inr (previousValue, p)
      else bindR (parseShort p) (\<lambda>(v, p'). Inr (previousValue + v, p')))"

text \<open>
  The two coordinate loops: one coordinate per flag, each relative to the previous one. The
  source indexes \<^verbatim>\<open>flags[i]\<close> for \<^verbatim>\<open>i < numberOfCoordinates\<close>, after checking that there are
  exactly that many flags.
\<close>

fun parseCoordinates :: "parser \<Rightarrow> int list \<Rightarrow> int \<Rightarrow> nat \<Rightarrow> nat \<Rightarrow> error + (int list \<times> parser)" where
  "parseCoordinates p [] previousValue shortVectorBit sameBit = Inr ([], p)"
| "parseCoordinates p (flag # flags) previousValue shortVectorBit sameBit =
     bindR (parseGlyphCoordinate p flag previousValue shortVectorBit sameBit) (\<lambda>(v, p').
     bindR (parseCoordinates p' flags v shortVectorBit sameBit) (\<lambda>(vs, p'').
       Inr (v # vs, p'')))"

text \<open>The points of a simple glyph: flag bit 0 and membership of the index in the end points.\<close>

definition makePoints :: "int list \<Rightarrow> int list \<Rightarrow> int list \<Rightarrow> int list \<Rightarrow> point list" where
  "makePoints endPts flags xs ys =
     map (\<lambda>i. \<lparr>point_x = xs ! i, point_y = ys ! i, onCurve = isBitSet (flags ! i) 0,
               lastPointOfContour = (int i \<in> set endPts)\<rparr>)
       [0 ..< length flags]"

text \<open>
  One turn of the loop \<^verbatim>\<open>while (moreComponents)\<close>: the component read and the value of
  \<^verbatim>\<open>moreComponents\<close> after it. The scale and the transformation are read and dropped.
\<close>

definition parseComponent :: "parser \<Rightarrow> error + (component \<times> bool \<times> parser)" where
  "parseComponent p =
     bindR (parseUShort p) (\<lambda>(flags, p1).
     bindR (parseUShort p1) (\<lambda>(gi, p2).
     bindR (if isBitSet flags 0 then
              bindR (parseShort p2) (\<lambda>(arg1, p3).
              bindR (parseShort p3) (\<lambda>(arg2, p4). Inr ((arg1, arg2), p4)))
            else
              bindR (parseByte p2) (\<lambda>(arg1, p3).
              bindR (parseByte p3) (\<lambda>(arg2, p4). Inr ((arg1, arg2), p4)))) (\<lambda>((arg1, arg2), p4).
     bindR (if isBitSet flags 3 then
              bindR (parseShort p4) (\<lambda>(scale, p5). Inr p5)
            else if isBitSet flags 6 then
              bindR (parseShort p4) (\<lambda>(xScale, p5).
              bindR (parseShort p5) (\<lambda>(yScale, p6). Inr p6))
            else if isBitSet flags 7 then
              bindR (parseShort p4) (\<lambda>(xScale, p5).
              bindR (parseShort p5) (\<lambda>(scale01, p6).
              bindR (parseShort p6) (\<lambda>(scale10, p7).
              bindR (parseShort p7) (\<lambda>(yScale, p8). Inr p8))))
            else Inr p4) (\<lambda>p'.
       Inr (\<lparr>glyphIndex = gi, dx = arg1, dy = arg2\<rparr>, isBitSet flags 5, p')))))"

text \<open>
  Every read that succeeds leaves the buffer and the base offset alone and moves the cursor
  forward, inside the buffer. This is what ends the loop over the components.
\<close>

definition advanced :: "parser \<Rightarrow> parser \<Rightarrow> bool" where
  "advanced p p' \<longleftrightarrow>
     dataView p' = dataView p \<and> offset p' = offset p \<and>
     relativeOffset p < relativeOffset p' \<and>
     offset p + relativeOffset p' \<le> length (dataView p)"

lemma advanced_trans: "advanced p p' \<Longrightarrow> advanced p' p'' \<Longrightarrow> advanced p p''"
  by (simp add: advanced_def)

lemma parseByte_advanced: "parseByte p = Inr (v, p') \<Longrightarrow> advanced p p'"
  by (simp add: parseByte_Inr advanced_def)

lemma parseUShort_advanced: "parseUShort p = Inr (v, p') \<Longrightarrow> advanced p p'"
  by (simp add: parseUShort_Inr advanced_def)

lemma parseShort_advanced: "parseShort p = Inr (v, p') \<Longrightarrow> advanced p p'"
  by (drule parseShort_Inr) (simp add: advanced_def)

lemma parseComponent_args_advanced:
  assumes "(if b then
              bindR (parseShort p2) (\<lambda>(arg1, p3).
              bindR (parseShort p3) (\<lambda>(arg2, p4). Inr ((arg1, arg2), p4)))
            else
              bindR (parseByte p2) (\<lambda>(arg1, p3).
              bindR (parseByte p3) (\<lambda>(arg2, p4). Inr ((arg1, arg2), p4)))) = Inr (args, p4)"
  shows "advanced p2 p4"
proof (cases b)
  case True
  with assms obtain arg1 p3 arg2 where "parseShort p2 = Inr (arg1, p3)" "parseShort p3 = Inr (arg2, p4)"
    by (auto simp: bindR_eq_Inr)
  then show ?thesis by (blast intro: advanced_trans parseShort_advanced)
next
  case False
  with assms obtain arg1 p3 arg2 where "parseByte p2 = Inr (arg1, p3)" "parseByte p3 = Inr (arg2, p4)"
    by (auto simp: bindR_eq_Inr)
  then show ?thesis by (blast intro: advanced_trans parseByte_advanced)
qed

lemma parseComponent_scale_advanced:
  assumes "(if b3 then
              bindR (parseShort p4) (\<lambda>(scale, p5). Inr p5)
            else if b6 then
              bindR (parseShort p4) (\<lambda>(xScale, p5).
              bindR (parseShort p5) (\<lambda>(yScale, p6). Inr p6))
            else if b7 then
              bindR (parseShort p4) (\<lambda>(xScale, p5).
              bindR (parseShort p5) (\<lambda>(scale01, p6).
              bindR (parseShort p6) (\<lambda>(scale10, p7).
              bindR (parseShort p7) (\<lambda>(yScale, p8). Inr p8))))
            else Inr p4) = Inr p'"
  shows "p' = p4 \<or> advanced p4 p'"
proof -
  consider "b3" | "\<not> b3" "b6" | "\<not> b3" "\<not> b6" "b7" | "\<not> b3" "\<not> b6" "\<not> b7" by blast
  then show ?thesis
  proof cases
    case 1
    with assms obtain v where "parseShort p4 = Inr (v, p')" by (auto simp: bindR_eq_Inr)
    then show ?thesis by (blast intro: parseShort_advanced)
  next
    case 2
    with assms obtain v p5 w where "parseShort p4 = Inr (v, p5)" "parseShort p5 = Inr (w, p')"
      by (auto simp: bindR_eq_Inr)
    then show ?thesis by (blast intro: advanced_trans parseShort_advanced)
  next
    case 3
    with assms obtain v p5 w p6 x p7 y where "parseShort p4 = Inr (v, p5)"
      "parseShort p5 = Inr (w, p6)" "parseShort p6 = Inr (x, p7)" "parseShort p7 = Inr (y, p')"
      by (auto simp: bindR_eq_Inr)
    then show ?thesis by (blast intro: advanced_trans parseShort_advanced)
  next
    case 4
    with assms show ?thesis by simp
  qed
qed

lemma parseComponent_advances:
  assumes "parseComponent p = Inr (c, mc, p')"
  shows "advanced p p'"
proof -
  from assms obtain flags p1 gi p2 args p4 where
    r1: "parseUShort p = Inr (flags, p1)" and r2: "parseUShort p1 = Inr (gi, p2)" and
    r3: "(if isBitSet flags 0 then
              bindR (parseShort p2) (\<lambda>(arg1, p3).
              bindR (parseShort p3) (\<lambda>(arg2, p4). Inr ((arg1, arg2), p4)))
            else
              bindR (parseByte p2) (\<lambda>(arg1, p3).
              bindR (parseByte p3) (\<lambda>(arg2, p4). Inr ((arg1, arg2), p4)))) = Inr (args, p4)" and
    r4: "(if isBitSet flags 3 then
              bindR (parseShort p4) (\<lambda>(scale, p5). Inr p5)
            else if isBitSet flags 6 then
              bindR (parseShort p4) (\<lambda>(xScale, p5).
              bindR (parseShort p5) (\<lambda>(yScale, p6). Inr p6))
            else if isBitSet flags 7 then
              bindR (parseShort p4) (\<lambda>(xScale, p5).
              bindR (parseShort p5) (\<lambda>(scale01, p6).
              bindR (parseShort p6) (\<lambda>(scale10, p7).
              bindR (parseShort p7) (\<lambda>(yScale, p8). Inr p8))))
            else Inr p4) = Inr p'"
    by (auto simp: parseComponent_def bindR_eq_Inr)
  have "advanced p p4"
    using parseUShort_advanced [OF r1] parseUShort_advanced [OF r2]
      parseComponent_args_advanced [OF r3] by (blast intro: advanced_trans)
  with parseComponent_scale_advanced [OF r4] show ?thesis
    by (blast intro: advanced_trans)
qed

text \<open>
  The loop \<^verbatim>\<open>while (moreComponents)\<close>. Each turn reads at least six bytes inside the buffer, so
  the loop ends, with the components or with a \<open>RangeError\<close>.
\<close>

function parseComponents :: "parser \<Rightarrow> component list \<Rightarrow> error + (component list \<times> parser)" where
  "parseComponents p cs =
     bindR (parseComponent p) (\<lambda>(component, moreComponents, p').
       if moreComponents then parseComponents p' (cs @ [component])
       else Inr (cs @ [component], p'))"
  by pat_completeness auto
termination
  by (relation "measure (\<lambda>(p, cs). length (dataView p) - (offset p + relativeOffset p))")
    (auto dest!: parseComponent_advances simp: advanced_def)

declare parseComponents.simps [simp del]

text \<open>
  \<^verbatim>\<open>parseGlyph(data, start, index)\<close>, in three parts: the branch of a simple glyph
  (\<^verbatim>\<open>numberOfContours > 0\<close>), the branch of a composite glyph (\<^verbatim>\<open>numberOfContours < 0\<close>), and
  the function itself, which reads the header and chooses the branch.
\<close>

definition parseSimpleGlyph :: "glyph \<Rightarrow> parser \<Rightarrow> error + glyph" where
  "parseSimpleGlyph glyph p =
     bindR (parseMany (nat (numberOfContours glyph)) parseUShort p) (\<lambda>(endPointIndices', p).
     bindR (parseUShort p) (\<lambda>(instructionLength', p).
     bindR (parseMany (nat instructionLength') parseByte p) (\<lambda>(instructions', p).
     let numberOfCoordinates = last endPointIndices' + 1;
         glyph = glyph\<lparr>endPointIndices := endPointIndices',
                       instructionLength := instructionLength',
                       instructions := instructions'\<rparr>
     in
     bindR (parseFlags p 0 numberOfCoordinates []) (\<lambda>(flags, p).
     bindR (checkArgument (int (length flags) = numberOfCoordinates) ''Bad flags.'') (\<lambda>_.
     if length endPointIndices' > 0 then
       (if numberOfCoordinates > 0 then
          bindR (parseCoordinates p flags 0 1 4) (\<lambda>(xs, p).
          bindR (parseCoordinates p flags 0 2 5) (\<lambda>(ys, p).
            Inr (glyph\<lparr>points := Some (makePoints endPointIndices' flags xs ys)\<rparr>)))
        else Inr (glyph\<lparr>points := Some []\<rparr>))
     else Inr (glyph\<lparr>points := Some []\<rparr>))))))"

definition parseCompositeGlyph :: "glyph \<Rightarrow> parser \<Rightarrow> error + glyph" where
  "parseCompositeGlyph glyph p =
     bindR (parseComponents p []) (\<lambda>(cs, p).
       Inr (glyph\<lparr>isComposite := True, points := Some [], components := cs\<rparr>))"

definition parseGlyph :: "dataView \<Rightarrow> nat \<Rightarrow> nat \<Rightarrow> error + glyph" where
  "parseGlyph data start idx =
     bindR (parseShort (Parser data start)) (\<lambda>(numberOfContours', p).
     bindR (parseShort p) (\<lambda>(xMin', p).
     bindR (parseShort p) (\<lambda>(yMin', p).
     bindR (parseShort p) (\<lambda>(xMax', p).
     bindR (parseShort p) (\<lambda>(yMax', p).
     let glyph = \<lparr>index = idx, numberOfContours = numberOfContours',
                    xMin = xMin', yMin = yMin', xMax = xMax', yMax = yMax',
                    endPointIndices = [], instructionLength = 0, instructions = [],
                    points = None, isComposite = False, components = []\<rparr>
     in
     if numberOfContours' > 0 then parseSimpleGlyph glyph p
     else if numberOfContours' = 0 then Inr (glyph\<lparr>points := Some []\<rparr>)
     else parseCompositeGlyph glyph p)))))"

text \<open>\<^verbatim>\<open>transformPoints(points, dx, dy)\<close>.\<close>

definition transformPoints :: "point list \<Rightarrow> int \<Rightarrow> int \<Rightarrow> point list" where
  "transformPoints pts ddx ddy =
     map (\<lambda>pt. \<lparr>point_x = point_x pt + ddx, point_y = point_y pt + ddy,
                onCurve = onCurve pt, lastPointOfContour = lastPointOfContour pt\<rparr>) pts"

text \<open>A loop that stops at the first exception.\<close>

primrec mapR :: "('a \<Rightarrow> error + 'b) \<Rightarrow> 'a list \<Rightarrow> error + 'b list" where
  "mapR f [] = Inr []"
| "mapR f (a # as) = bindR (f a) (\<lambda>b. bindR (mapR f as) (\<lambda>bs. Inr (b # bs)))"

text \<open>
  The first loop of \<^verbatim>\<open>parseGlyfTable\<close>: one glyph for each index below \<^verbatim>\<open>loca.length - 1\<close>; a
  glyph whose two offsets are equal is the literal without \<^verbatim>\<open>points\<close>.
\<close>

definition emptyGlyph :: "nat \<Rightarrow> glyph" where
  "emptyGlyph i = \<lparr>index = i, numberOfContours = 0, xMin = 0, yMin = 0, xMax = 0, yMax = 0,
                    endPointIndices = [], instructionLength = 0, instructions = [],
                    points = None, isComposite = False, components = []\<rparr>"

definition parseGlyfEntry :: "dataView \<Rightarrow> nat \<Rightarrow> nat list \<Rightarrow> nat \<Rightarrow> error + glyph" where
  "parseGlyfEntry data start loca i =
     (let offset' = loca ! i; nextOffset = loca ! (i + 1)
      in if offset' \<noteq> nextOffset then parseGlyph data (start + offset') i
         else Inr (emptyGlyph i))"

definition parseGlyfEntries :: "dataView \<Rightarrow> nat \<Rightarrow> nat list \<Rightarrow> error + glyph list" where
  "parseGlyfEntries data start loca =
     mapR (parseGlyfEntry data start loca) [0 ..< length loca - 1]"

text \<open>
  The second loop: a composite glyph takes the translated points of each of its components.
  \<^verbatim>\<open>glyphs[component.glyphIndex]\<close> is \<^verbatim>\<open>undefined\<close> beyond the array, and reading its \<^verbatim>\<open>points\<close>
  raises. The array is updated in place, so a component is read in the state the earlier
  turns have left.
\<close>

fun resolveComponents :: "glyph list \<Rightarrow> nat \<Rightarrow> component list \<Rightarrow> error + glyph list" where
  "resolveComponents glyphs i [] = Inr glyphs"
| "resolveComponents glyphs i (component # cs) =
     (if 0 \<le> glyphIndex component \<and> nat (glyphIndex component) < length glyphs then
        (case points (glyphs ! nat (glyphIndex component)) of
           None \<Rightarrow> resolveComponents glyphs i cs
         | Some componentPoints \<Rightarrow>
             (let transformedPoints = transformPoints componentPoints (dx component) (dy component)
              in case points (glyphs ! i) of
                   None \<Rightarrow> Inl TypeError
                 | Some pts \<Rightarrow>
                     resolveComponents
                       (glyphs[i := (glyphs ! i)\<lparr>points := Some (pts @ transformedPoints)\<rparr>]) i cs))
      else Inl TypeError)"

definition resolveGlyph :: "glyph list \<Rightarrow> nat \<Rightarrow> error + glyph list" where
  "resolveGlyph glyphs i =
     (if isComposite (glyphs ! i) then resolveComponents glyphs i (components (glyphs ! i))
      else Inr glyphs)"

fun resolveAll :: "glyph list \<Rightarrow> nat list \<Rightarrow> error + glyph list" where
  "resolveAll glyphs [] = Inr glyphs"
| "resolveAll glyphs (i # is) = bindR (resolveGlyph glyphs i) (\<lambda>glyphs'. resolveAll glyphs' is)"

text \<open>\<^verbatim>\<open>parseGlyfTable(data, start, loca)\<close>. The array keeps its length in the second loop.\<close>

definition parseGlyfTable :: "dataView \<Rightarrow> nat \<Rightarrow> nat list \<Rightarrow> error + glyph list" where
  "parseGlyfTable data start loca =
     bindR (parseGlyfEntries data start loca) (\<lambda>glyphs.
       resolveAll glyphs [0 ..< length glyphs])"

text \<open>
  How the second loop may change the glyph array: the length stays, a glyph that is not
  composite stays as it is, and a composite glyph keeps everything but its points, which only
  get longer at the end.
\<close>

definition grows :: "glyph list \<Rightarrow> glyph list \<Rightarrow> bool" where
  "grows glyphs glyphs' \<longleftrightarrow>
     length glyphs' = length glyphs \<and>
     (\<forall>k < length glyphs.
        (\<not> isComposite (glyphs ! k) \<longrightarrow> glyphs' ! k = glyphs ! k) \<and>
        (\<exists>p. glyphs' ! k = (glyphs ! k)\<lparr>points := p\<rparr>) \<and>
        isComposite (glyphs' ! k) = isComposite (glyphs ! k) \<and>
        components (glyphs' ! k) = components (glyphs ! k) \<and>
        (\<forall>pts. points (glyphs ! k) = Some pts \<longrightarrow>
           (\<exists>extra. points (glyphs' ! k) = Some (pts @ extra))))"

text \<open>The point that \<^verbatim>\<open>transformPoints\<close> makes of a point.\<close>

definition translatePoint :: "point \<Rightarrow> int \<Rightarrow> int \<Rightarrow> point" where
  "translatePoint pt ddx ddy =
     \<lparr>point_x = point_x pt + ddx, point_y = point_y pt + ddy,
      onCurve = onCurve pt, lastPointOfContour = lastPointOfContour pt\<rparr>"

section \<open>Paths and the outline builder of opentype.js\<close>

text \<open>
  A \<^verbatim>\<open>Path\<close> is its array \<^verbatim>\<open>commands\<close>; its other fields (\<^verbatim>\<open>fill\<close>, \<^verbatim>\<open>stroke\<close>, \<^verbatim>\<open>strokeWidth\<close>) are
  constants that \<^verbatim>\<open>glyphToPath\<close> never changes. The methods \<^verbatim>\<open>moveTo\<close>, \<^verbatim>\<open>lineTo\<close>,
  \<^verbatim>\<open>quadraticCurveTo\<close> and \<^verbatim>\<open>closePath\<close> push one command each: \<open>M\<close>, \<open>L\<close>, \<open>Q\<close> and \<open>Z\<close>.
  Coordinates are rational: the builder halves sums of integers.
\<close>

datatype command =
    M rat rat
  | L rat rat
  | C rat rat rat rat rat rat
  | Q rat rat rat rat
  | Z

type_synonym path = "command list"

text \<open>
  The loop of \<^verbatim>\<open>getContours\<close>: the contours closed so far and the current, open contour.
\<close>

fun getContoursLoop :: "point list \<Rightarrow> point list list \<Rightarrow> point list \<Rightarrow>
    point list list \<times> point list" where
  "getContoursLoop [] contours currentContour = (contours, currentContour)"
| "getContoursLoop (pt # pts) contours currentContour =
     (if lastPointOfContour pt
      then getContoursLoop pts (contours @ [currentContour @ [pt]]) []
      else getContoursLoop pts contours (currentContour @ [pt]))"

text \<open>\<^verbatim>\<open>getContours(glyph)\<close>; \<^verbatim>\<open>glyph.points.length\<close> raises when there is no \<^verbatim>\<open>points\<close>.\<close>

definition getContours :: "glyph \<Rightarrow> error + point list list" where
  "getContours glyph =
     (case points glyph of
        None \<Rightarrow> Inl TypeError
      | Some pts \<Rightarrow>
          (case getContoursLoop pts [] [] of (contours, currentContour) \<Rightarrow>
             bindR (checkArgument (length currentContour = 0)
                      ''There are still points left in the current contour.'') (\<lambda>_.
               Inr contours)))"

text \<open>
  The body of the \<^verbatim>\<open>for\<close> loop of \<^verbatim>\<open>glyphToPath\<close> for \<^verbatim>\<open>i > 0\<close>: \<open>prevPt\<close> is \<^verbatim>\<open>contour[i - 1]\<close>,
  \<open>curvePt\<close> is the pending control point (\<open>None\<close> is \<^verbatim>\<open>null\<close>).
\<close>

fun contourLoop :: "rat \<Rightarrow> rat \<Rightarrow> point \<Rightarrow> point list \<Rightarrow> (rat \<times> rat) option \<Rightarrow> path \<Rightarrow>
    error + ((rat \<times> rat) option \<times> path)" where
  "contourLoop tx ty prevPt [] curvePt path = Inr (curvePt, path)"
| "contourLoop tx ty prevPt (pt # pts) curvePt path =
     (if onCurve prevPt \<and> onCurve pt then
        contourLoop tx ty pt pts curvePt
          (path @ [L (tx + of_int (point_x pt)) (ty - of_int (point_y pt))])
      else if onCurve prevPt \<and> \<not> onCurve pt then
        contourLoop tx ty pt pts (Some (of_int (point_x pt), of_int (point_y pt))) path
      else if \<not> onCurve prevPt \<and> \<not> onCurve pt then
        (let midPt = (of_int (point_x prevPt + point_x pt) / 2,
                      of_int (point_y prevPt + point_y pt) / 2)
         in contourLoop tx ty pt pts (Some (of_int (point_x pt), of_int (point_y pt)))
              (path @ [Q (tx + of_int (point_x prevPt)) (ty - of_int (point_y prevPt))
                         (tx + fst midPt) (ty - snd midPt)]))
      else if \<not> onCurve prevPt \<and> onCurve pt then
        (case curvePt of
           None \<Rightarrow> Inl TypeError
         | Some c \<Rightarrow>
             contourLoop tx ty pt pts None
               (path @ [Q (tx + fst c) (ty - snd c)
                          (tx + of_int (point_x pt)) (ty - of_int (point_y pt))]))
      else Inl (Error ''Invalid state.''))"

text \<open>
  The callback of \<^verbatim>\<open>_.each(contours, ...)\<close>: the first point (\<^verbatim>\<open>i === 0\<close>, with \<open>prevPt\<close> the last
  point of the contour), the other points, and the segment back to the first point. On an
  empty contour \<^verbatim>\<open>firstPt\<close> is \<^verbatim>\<open>undefined\<close> and \<^verbatim>\<open>firstPt.x\<close> raises.
\<close>

definition contourToPath :: "rat \<Rightarrow> rat \<Rightarrow> point list \<Rightarrow> path \<Rightarrow> error + path" where
  "contourToPath tx ty contour path =
     (case contour of
        [] \<Rightarrow> Inl TypeError
      | firstPt # rest \<Rightarrow>
          (let prevPt = last contour;
               (curvePt, path) =
                 (if onCurve firstPt then
                    (None, path @ [M (tx + of_int (point_x firstPt)) (ty - of_int (point_y firstPt))])
                  else
                    (let midPt = (of_int (point_x prevPt + point_x firstPt) / 2,
                                  of_int (point_y prevPt + point_y firstPt) / 2)
                     in (Some midPt, path @ [M (tx + fst midPt) (ty - snd midPt)])))
           in bindR (contourLoop tx ty firstPt rest curvePt path) (\<lambda>(curvePt, path).
                case curvePt of
                  Some c \<Rightarrow>
                    Inr (path @ [Q (tx + fst c) (ty - snd c)
                                   (tx + of_int (point_x firstPt)) (ty - of_int (point_y firstPt))])
                | None \<Rightarrow>
                    Inr (path @ [L (tx + of_int (point_x firstPt))
                                   (ty - of_int (point_y firstPt))]))))"

fun eachContour :: "rat \<Rightarrow> rat \<Rightarrow> point list list \<Rightarrow> path \<Rightarrow> error + path" where
  "eachContour tx ty [] path = Inr path"
| "eachContour tx ty (contour # contours) path =
     bindR (contourToPath tx ty contour path) (\<lambda>path'. eachContour tx ty contours path')"

text \<open>
  \<^verbatim>\<open>openType.glyphToPath(glyph, tx, ty)\<close>; an argument left out is \<open>None\<close> and stands for 0. The
  single \<^verbatim>\<open>path.closePath()\<close> comes after the loop over the contours.
\<close>

definition glyphToPath :: "glyph \<Rightarrow> rat option \<Rightarrow> rat option \<Rightarrow> error + path" where
  "glyphToPath glyph tx ty =
     (let tx = (case tx of None \<Rightarrow> 0 | Some t \<Rightarrow> t);
          ty = (case ty of None \<Rightarrow> 0 | Some t \<Rightarrow> t)
      in case points glyph of
           None \<Rightarrow> Inr []
         | Some _ \<Rightarrow>
             bindR (getContours glyph) (\<lambda>contours.
             bindR (eachContour tx ty contours []) (\<lambda>path.
               Inr (path @ [Z]))))"

text \<open>
  What a correct split into contours is: every contour is non-empty, its last point carries the
  flag \<^verbatim>\<open>lastPointOfContour\<close> and none of its other points does.
\<close>

definition wellSplit :: "point list list \<Rightarrow> bool" where
  "wellSplit cs \<longleftrightarrow> (\<forall>c \<in> set cs. c \<noteq> [] \<and> lastPointOfContour (last c) \<and>
      (\<forall>p \<in> set (butlast c). \<not> lastPointOfContour p))"

section \<open>Character to glyph index (opentype.js)\<close>

text \<open>
  A segment of the cmap table, as \<^verbatim>\<open>parseCmapTable\<close> builds it. The fields \<^verbatim>\<open>start\<close>, \<^verbatim>\<open>end\<close> and
  \<^verbatim>\<open>length\<close> are named \<open>seg_start\<close>, \<open>seg_end\<close> and \<open>seg_length\<close>; \<^verbatim>\<open>ids\<close> is \<open>None\<close> where the
  segment has no id array (\<^verbatim>\<open>idRangeOffset === 0\<close>).
\<close>

record segment =
  seg_end :: int
  seg_start :: int
  seg_length :: int
  idDelta :: int
  ids :: "int list option"

text \<open>
  \<^verbatim>\<open>s.charCodeAt(0)\<close>: a string is the list of its UTF-16 code units, and the code of the empty
  string is \<^verbatim>\<open>NaN\<close> (\<open>None\<close>), for which every comparison is false.
\<close>

definition charCodeAt0 :: "nat list \<Rightarrow> int option" where
  "charCodeAt0 s = (case s of [] \<Rightarrow> None | c # _ \<Rightarrow> Some (int c))"

text \<open>
  The binary search of \<^verbatim>\<open>charToGlyphIndex\<close>, on the bounds \<open>l\<close> and \<open>r\<close>. The midpoint
  \<^verbatim>\<open>(l + r + 1) >> 1\<close> is a division by 2: the bounds are indices of an array, below \<open>2 ^ 30\<close>.
  It lies in \<open>l + 1 .. r\<close>, inside the array, so \<^verbatim>\<open>ranges[c]\<close> is defined.
\<close>

function searchSegment :: "segment list \<Rightarrow> int option \<Rightarrow> nat \<Rightarrow> nat \<Rightarrow> nat" where
  "searchSegment ranges code l r =
     (if l < r then
        (let c = (l + r + 1) div 2
         in if (case code of None \<Rightarrow> False | Some k \<Rightarrow> k < seg_start (ranges ! c))
            then searchSegment ranges code l (c - 1)
            else searchSegment ranges code c r)
      else l)"
  by pat_completeness auto
termination
  by (relation "measure (\<lambda>(ranges, code, l, r). r - l)") auto

declare searchSegment.simps [simp del]

text \<open>
  \<^verbatim>\<open>Font.prototype.charToGlyphIndex\<close>, with the cmap as its first argument. On an empty cmap
  \<^verbatim>\<open>ranges[0]\<close> is \<^verbatim>\<open>undefined\<close> and \<^verbatim>\<open>ranges[l].start\<close> raises. An index beyond the id array gives
  \<^verbatim>\<open>undefined\<close>, the sum is \<^verbatim>\<open>NaN\<close> and \<^verbatim>\<open>NaN & 0xFFFF\<close> is 0.
\<close>

definition charToGlyphIndex :: "segment list \<Rightarrow> nat list \<Rightarrow> error + int" where
  "charToGlyphIndex ranges s =
     (let code = charCodeAt0 s;
          l = searchSegment ranges code 0 (length ranges - 1)
      in if ranges = [] then Inl TypeError
         else
           (case code of
              None \<Rightarrow> Inr 0
            | Some k \<Rightarrow>
                if seg_start (ranges ! l) \<le> k \<and> k \<le> seg_end (ranges ! l) then
                  (case ids (ranges ! l) of
                     None \<Rightarrow> Inr (js_and (idDelta (ranges ! l) + k) 0xFFFF)
                   | Some idArray \<Rightarrow>
                       (let j = k - seg_start (ranges ! l)
                        in if nat j < length idArray
                           then Inr (js_and (idDelta (ranges ! l) + idArray ! nat j) 0xFFFF)
                           else Inr 0))
                else Inr 0))"

text \<open>
  Segments in ascending order that do not overlap: the start codes ascend, and every segment
  ends before the next one starts.
\<close>

definition ascending :: "segment list \<Rightarrow> bool" where
  "ascending ranges \<longleftrightarrow>
     sorted (map seg_start ranges) \<and>
     (\<forall>i. i + 1 < length ranges \<longrightarrow> seg_end (ranges ! i) < seg_start (ranges ! (i + 1)))"

section \<open>Kerning (opentype.js and font.js)\<close>

text \<open>
  The kerning pairs are a JavaScript object whose keys are the strings
  \<^verbatim>\<open>leftIndex + ',' + rightIndex\<close>. \<open>showNat\<close> is the conversion of a non-negative integer to
  a string: its decimal digits, without leading zeros.
\<close>

definition digitChar :: "nat \<Rightarrow> char" where
  "digitChar d = ''0123456789'' ! d"

fun showNat :: "nat \<Rightarrow> string" where
  "showNat n = (if n < 10 then [digitChar n] else showNat (n div 10) @ [digitChar (n mod 10)])"

declare showNat.simps [simp del]

text \<open>
  An argument of \<^verbatim>\<open>getKerningValue\<close> is a glyph object (\<open>GlyphArg i\<close>, with \<open>i\<close> its \<^verbatim>\<open>index\<close>) or
  a glyph index (\<open>IndexArg n\<close>). \<^verbatim>\<open>leftGlyph.index ? leftGlyph.index : leftGlyph\<close> (in font.js
  \<^verbatim>\<open>leftGlyph.index || leftGlyph\<close>) is the index of a glyph object unless that index is 0, which
  is falsy: then it is the object itself. The \<^verbatim>\<open>index\<close> of a number is \<^verbatim>\<open>undefined\<close>.
\<close>

datatype kernArg = GlyphArg nat | IndexArg nat

datatype keyPart = NumberPart nat | ObjectPart

definition indexOrSelf :: "kernArg \<Rightarrow> keyPart" where
  "indexOrSelf a =
     (case a of
        GlyphArg i \<Rightarrow> if i \<noteq> 0 then NumberPart i else ObjectPart
      | IndexArg n \<Rightarrow> NumberPart n)"

text \<open>The string that \<^verbatim>\<open>+\<close> makes of a key part; an object prints as \<^verbatim>\<open>[object Object]\<close>.\<close>

definition partString :: "keyPart \<Rightarrow> string" where
  "partString k = (case k of NumberPart n \<Rightarrow> showNat n | ObjectPart \<Rightarrow> ''[object Object]'')"

definition pairKey :: "keyPart \<Rightarrow> keyPart \<Rightarrow> string" where
  "pairKey l r = partString l @ '','' @ partString r"

type_synonym kerningPairs = "string \<rightharpoonup> int"

text \<open>
  The loop of \<^verbatim>\<open>parseKernTable\<close>: \<open>n\<close> records of a left index, a right index and a signed
  value, each stored under its key; a later record replaces an earlier one with the same key.
\<close>

fun parseKernPairs :: "nat \<Rightarrow> parser \<Rightarrow> kerningPairs \<Rightarrow> error + kerningPairs" where
  "parseKernPairs 0 p pairs = Inr pairs"
| "parseKernPairs (Suc n) p pairs =
     bindR (parseUShort p) (\<lambda>(leftIndex, p).
     bindR (parseUShort p) (\<lambda>(rightIndex, p).
     bindR (parseShort p) (\<lambda>(v, p).
       parseKernPairs n p
         (pairs(pairKey (NumberPart (nat leftIndex)) (NumberPart (nat rightIndex)) \<mapsto> v)))))"

text \<open>\<^verbatim>\<open>parseKernTable(data, start, glyphs)\<close>; the argument \<^verbatim>\<open>glyphs\<close> is not used.\<close>

definition parseKernTable :: "dataView \<Rightarrow> nat \<Rightarrow> error + kerningPairs" where
  "parseKernTable data start =
     bindR (parseUShort (Parser data start)) (\<lambda>(tableVersion, p).
     bindR (checkArgument (tableVersion = 0) ''Unsupported kern table version.'') (\<lambda>_.
     bindR (parseUShort p) (\<lambda>(nTables, p).
     bindR (checkArgument (nTables = 1) ''Unsupported number of kern sub-tables.'') (\<lambda>_.
     bindR (parseUShort p) (\<lambda>(subTableVersion, p).
     bindR (checkArgument (subTableVersion = 0) ''Unsupported kern sub-table version.'') (\<lambda>_.
     bindR (parseUShort p) (\<lambda>(subTableLength, p).
     bindR (parseUShort p) (\<lambda>(subTableCoverage, p).
     bindR (parseUShort p) (\<lambda>(nPairs, p).
       parseKernPairs (nat nPairs) (skip_uShort p 3) Map.empty)))))))))"

text \<open>
  The table that the loop builds from a list of records \<open>((left, right), value)\<close>, in the
  order in which they are read.
\<close>

fun storeRecords :: "((nat \<times> nat) \<times> int) list \<Rightarrow> kerningPairs \<Rightarrow> kerningPairs" where
  "storeRecords [] pairs = pairs"
| "storeRecords (((leftIndex, rightIndex), v) # records) pairs =
     storeRecords records (pairs(pairKey (NumberPart leftIndex) (NumberPart rightIndex) \<mapsto> v))"

definition kernTable :: "((nat \<times> nat) \<times> int) list \<Rightarrow> kerningPairs" where
  "kernTable records = storeRecords records Map.empty"

text \<open>
  \<^verbatim>\<open>Font.prototype.getKerningValue\<close> of opentype.js:
  \<^verbatim>\<open>this.kerningPairs[leftGlyph + ',' + rightGlyph] | 0\<close>. A missing key gives \<^verbatim>\<open>undefined\<close>, and
  \<^verbatim>\<open>undefined | 0\<close> is 0.
\<close>

definition getKerningValue :: "kerningPairs \<Rightarrow> kernArg \<Rightarrow> kernArg \<Rightarrow> int" where
  "getKerningValue kerningPairs leftGlyph rightGlyph =
     (let leftGlyph = indexOrSelf leftGlyph;
          rightGlyph = indexOrSelf rightGlyph
      in case kerningPairs (pairKey leftGlyph rightGlyph) of
           None \<Rightarrow> 0
         | Some v \<Rightarrow> js_or v 0)"

text \<open>
  \<^verbatim>\<open>Font.prototype.getKerningValue\<close> of font.js. The font may carry a function
  \<^verbatim>\<open>getGposKerningValue\<close> (set by the GPOS decoder, which is outside these sources; \<open>None\<close> where
  the font has none); it takes precedence over the pairs of the kern table.
  \<^verbatim>\<open>this.kerningPairs[...] || 0\<close> is the stored value, or 0 for a missing key.
\<close>

record font =
  kerningPairs :: kerningPairs
  getGposKerningValue :: "(keyPart \<Rightarrow> keyPart \<Rightarrow> int) option"

definition font_getKerningValue :: "font \<Rightarrow> kernArg \<Rightarrow> kernArg \<Rightarrow> int" where
  "font_getKerningValue this leftGlyph rightGlyph =
     (let leftGlyph = indexOrSelf leftGlyph;
          rightGlyph = indexOrSelf rightGlyph
      in case getGposKerningValue this of
           Some gposKerning \<Rightarrow> gposKerning leftGlyph rightGlyph
         | None \<Rightarrow>
             (case kerningPairs this (pairKey leftGlyph rightGlyph) of
                None \<Rightarrow> 0
              | Some v \<Rightarrow> if v \<noteq> 0 then v else 0))"

section \<open>Properties of the number encoder\<close>

lemma toInt32_255: "toInt32 255 = mask 8"
  by (simp add: toInt32_def mask_eq_exp_minus_1)

lemma js_and_255_take: "js_and a 0xFF = take_bit 8 a"
  unfolding js_and_def toInt32_255 unfolding toInt32_def
  by (rule bit_eqI) (auto simp add: bit_simps simp flip: take_bit_eq_mask)

lemma js_and_255: "js_and a 0xFF = a mod 256"
  by (simp add: js_and_255_take take_bit_eq_mod)

lemma js_shr_and_take: "n \<le> 24 \<Longrightarrow> js_and (js_shr a n) 0xFF = take_bit 8 (drop_bit n a)"
  unfolding js_and_255_take
  unfolding js_shr_def toInt32_def
  by (rule bit_eqI) (auto simp add: bit_simps)

lemma js_shr_and: "n \<le> 24 \<Longrightarrow> js_and (js_shr a n) 0xFF = (a div 2 ^ n) mod 256"
  by (simp add: js_shr_and_take take_bit_eq_mod drop_bit_eq_div)

lemma js_shl_small:
  assumes "0 \<le> b" "b < 256"
  shows "js_shl b 8 = b * 256"
proof -
  have "push_bit 8 (word_of_int b :: 32 word) = word_of_int (b * 256)"
    by (simp add: push_bit_eq_mult)
  moreover have "sint (word_of_int (b * 256) :: 32 word) = b * 256"
    unfolding sint_sbintrunc' using assms by (simp add: signed_take_bit_int_eq_self_iff)
  ultimately show ?thesis by (simp add: js_shl_def toInt32_def)
qed

lemma encode_NUMBER_single: "-107 \<le> v \<Longrightarrow> v \<le> 107 \<Longrightarrow> encode_NUMBER v = [v + 139]"
  by (simp only: encode_NUMBER_def simp_thms if_True)

lemma encode_NUMBER_two_bytes:
  assumes "0 \<le> v2" "v2 \<le> 1023"
  shows "js_and (js_shr v2 8) 0xFF = v2 div 256"
    and "v2 - js_shl (v2 div 256) 8 = v2 mod 256"
proof -
  have d: "v2 div 256 mod 256 = v2 div 256"
    using assms by (intro mod_pos_pos_trivial) auto
  show b0: "js_and (js_shr v2 8) 0xFF = v2 div 256"
    using js_shr_and [of 8 v2] d by simp
  have "js_shl (v2 div 256) 8 = v2 div 256 * 256"
    using assms by (intro js_shl_small) auto
  then show "v2 - js_shl (v2 div 256) 8 = v2 mod 256"
    by (simp add: minus_div_mult_eq_mod)
qed

lemma encode_NUMBER_positive:
  assumes "108 \<le> v" "v \<le> 1131"
  shows "encode_NUMBER v = [247 + (v - 108) div 256, (v - 108) mod 256]"
proof -
  have c: "\<not> (v \<ge> -107 \<and> v \<le> 107)" "v \<ge> 108 \<and> v \<le> 1131"
    using assms by simp_all
  have r: "0 \<le> v - 108" "v - 108 \<le> 1023"
    using assms by simp_all
  show ?thesis
    by (simp only: encode_NUMBER_def c if_True if_False Let_def simp_thms
        encode_NUMBER_two_bytes [OF r] add.commute)
qed

lemma encode_NUMBER_negative:
  assumes "-1131 \<le> v" "v \<le> -108"
  shows "encode_NUMBER v = [251 + (- v - 108) div 256, (- v - 108) mod 256]"
proof -
  have c: "\<not> (v \<ge> -107 \<and> v \<le> 107)" "\<not> (v \<ge> 108 \<and> v \<le> 1131)"
      "v \<ge> -1131 \<and> v \<le> -108"
    using assms by simp_all
  have r: "0 \<le> - v - 108" "- v - 108 \<le> 1023"
    using assms by simp_all
  show ?thesis
    by (simp only: encode_NUMBER_def c if_True if_False Let_def simp_thms
        encode_NUMBER_two_bytes [OF r] add.commute)
qed

lemma encode_NUMBER16_bytes: "encode_NUMBER16 v = [0x1C, (v div 256) mod 256, v mod 256]"
proof -
  have s8: "js_and (js_shr v 8) 0xFF = (v div 256) mod 256"
    using js_shr_and [of 8 v] by simp
  show ?thesis
    by (simp only: encode_NUMBER16_def s8) (simp only: js_and_255)
qed

lemma encode_NUMBER32_bytes:
  "encode_NUMBER32 v =
     [0x1D, (v div 2 ^ 24) mod 256, (v div 2 ^ 16) mod 256, (v div 2 ^ 8) mod 256, v mod 256]"
proof -
  have s24: "js_and (js_shr v 24) 0xFF = (v div 2 ^ 24) mod 256" by (rule js_shr_and) simp
  have s16: "js_and (js_shr v 16) 0xFF = (v div 2 ^ 16) mod 256" by (rule js_shr_and) simp
  have s8: "js_and (js_shr v 8) 0xFF = (v div 2 ^ 8) mod 256" by (rule js_shr_and) simp
  show ?thesis
    by (simp only: encode_NUMBER32_def s24 s16 s8) (simp only: js_and_255)
qed

lemma encode_NUMBER_16:
  assumes "-32768 \<le> v" "v \<le> 32767" "\<not> (-1131 \<le> v \<and> v \<le> 1131)"
  shows "encode_NUMBER v = encode_NUMBER16 v"
proof -
  have c: "\<not> (v \<ge> -107 \<and> v \<le> 107)" "\<not> (v \<ge> 108 \<and> v \<le> 1131)"
      "\<not> (v \<ge> -1131 \<and> v \<le> -108)" "v \<ge> -32768 \<and> v \<le> 32767"
    using assms by auto
  show ?thesis
    by (simp only: encode_NUMBER_def c if_True if_False simp_thms)
qed

lemma encode_NUMBER_32:
  assumes "\<not> (-32768 \<le> v \<and> v \<le> 32767)"
  shows "encode_NUMBER v = encode_NUMBER32 v"
proof -
  have c: "\<not> (v \<ge> -107 \<and> v \<le> 107)" "\<not> (v \<ge> 108 \<and> v \<le> 1131)"
      "\<not> (v \<ge> -1131 \<and> v \<le> -108)" "\<not> (v \<ge> -32768 \<and> v \<le> 32767)"
    using assms by auto
  show ?thesis
    by (simp only: encode_NUMBER_def c if_True if_False simp_thms)
qed

text \<open>
  Claim C1. For every integer \<open>v\<close>, \<^verbatim>\<open>encode.NUMBER(v)\<close> is determined by the bucket that
  holds \<open>v\<close>: one byte \<open>v + 139\<close> for \<open>-107..107\<close>; the two bytes \<open>[247 + hi, lo]\<close> of
  \<open>v - 108\<close> for \<open>108..1131\<close>; the two bytes \<open>[251 + hi, lo]\<close> of \<open>- v - 108\<close> for
  \<open>-1131..-108\<close>; the three bytes \<open>[0x1C, hi, lo]\<close> of \<open>v\<close> for the rest of
  \<open>-32768..32767\<close>; and otherwise \<open>0x1D\<close> followed by the four big-endian bytes of \<open>v\<close>
  (its low 32 bits in two's complement).
\<close>

theorem encode_NUMBER_buckets:
  "(-107 \<le> v \<and> v \<le> 107 \<longrightarrow> encode_NUMBER v = [v + 139]) \<and>
   (108 \<le> v \<and> v \<le> 1131 \<longrightarrow>
      encode_NUMBER v = [247 + (v - 108) div 256, (v - 108) mod 256]) \<and>
   (-1131 \<le> v \<and> v \<le> -108 \<longrightarrow>
      encode_NUMBER v = [251 + (- v - 108) div 256, (- v - 108) mod 256]) \<and>
   (-32768 \<le> v \<and> v \<le> 32767 \<and> \<not> (-1131 \<le> v \<and> v \<le> 1131) \<longrightarrow>
      encode_NUMBER v = [0x1C, (v div 256) mod 256, v mod 256]) \<and>
   (\<not> (-32768 \<le> v \<and> v \<le> 32767) \<longrightarrow>
      encode_NUMBER v =
        [0x1D, (v div 2 ^ 24) mod 256, (v div 2 ^ 16) mod 256, (v div 2 ^ 8) mod 256, v mod 256])"
  using encode_NUMBER_single [of v] encode_NUMBER_positive [of v] encode_NUMBER_negative [of v]
    encode_NUMBER_16 [of v] encode_NUMBER_32 [of v]
  unfolding encode_NUMBER16_bytes encode_NUMBER32_bytes
  by blast

theorem encode_NUMBER_buckets_witness:
  "encode_NUMBER (-107) = [32] \<and> encode_NUMBER 108 = [247, 0] \<and>
   encode_NUMBER (-1131) = [254, 255] \<and> encode_NUMBER (-32768) = [0x1C, 128, 0] \<and>
   encode_NUMBER 32768 = [0x1D, 0, 0, 128, 0]"
  using encode_NUMBER_buckets [of "-107"] encode_NUMBER_buckets [of 108]
    encode_NUMBER_buckets [of "-1131"] encode_NUMBER_buckets [of "-32768"]
    encode_NUMBER_buckets [of 32768]
  by simp

section \<open>Properties of the split into contours\<close>

lemma getContoursLoop_concat:
  "getContoursLoop pts cs cur = (cs', cur') \<Longrightarrow> concat cs' @ cur' = concat cs @ cur @ pts"
  by (induction pts arbitrary: cs cur) (auto split: if_splits)

lemma getContoursLoop_rest:
  "getContoursLoop pts cs cur = (cs', cur') \<Longrightarrow> pts \<noteq> [] \<Longrightarrow>
     (cur' = [] \<longleftrightarrow> lastPointOfContour (last pts))"
proof (induction pts arbitrary: cs cur)
  case Nil
  then show ?case by simp
next
  case (Cons pt pts)
  show ?case
  proof (cases pts)
    case Nil
    with Cons.prems show ?thesis by (auto split: if_splits)
  next
    case (Cons q qs)
    with Cons.IH Cons.prems show ?thesis by (auto split: if_splits)
  qed
qed

lemma getContoursLoop_wellSplit:
  "getContoursLoop pts cs cur = (cs', cur') \<Longrightarrow> wellSplit cs \<Longrightarrow>
     \<forall>p \<in> set cur. \<not> lastPointOfContour p \<Longrightarrow>
     wellSplit cs' \<and> (\<forall>p \<in> set cur'. \<not> lastPointOfContour p)"
proof (induction pts arbitrary: cs cur)
  case Nil
  then show ?case by simp
next
  case (Cons pt pts)
  show ?case
  proof (cases "lastPointOfContour pt")
    case True
    have "wellSplit (cs @ [cur @ [pt]])"
      using Cons.prems(2,3) True by (auto simp: wellSplit_def butlast_append)
    with Cons.IH [of "cs @ [cur @ [pt]]" "[]"] Cons.prems(1) True show ?thesis by simp
  next
    case False
    with Cons.IH [of cs "cur @ [pt]"] Cons.prems show ?thesis by auto
  qed
qed

text \<open>
  Claim C6. The split at the flags \<^verbatim>\<open>lastPointOfContour\<close> partitions the point list: when the
  final point of a non-empty list carries the flag, \<^verbatim>\<open>getContours\<close> succeeds, the contours in
  order make up the list again (every point lies in exactly one contour) and each contour ends
  at a flagged point; when the final point lacks the flag, \<^verbatim>\<open>glyphToPath\<close> raises the error of
  the leftover points.
\<close>

theorem getContours_partition:
  "(points g = Some pts \<and> pts \<noteq> [] \<and> lastPointOfContour (last pts) \<longrightarrow>
      (\<exists>cs. getContours g = Inr cs \<and> concat cs = pts \<and> wellSplit cs)) \<and>
   (points g = Some pts \<and> pts \<noteq> [] \<and> \<not> lastPointOfContour (last pts) \<longrightarrow>
      glyphToPath g tx ty = Inl (Error ''There are still points left in the current contour.''))"
proof (intro conjI impI)
  assume a: "points g = Some pts \<and> pts \<noteq> [] \<and> lastPointOfContour (last pts)"
  obtain cs cur where l: "getContoursLoop pts [] [] = (cs, cur)" by (cases "getContoursLoop pts [] []")
  from getContoursLoop_rest [OF l] a have cur: "cur = []" by simp
  from getContoursLoop_concat [OF l] cur have "concat cs = pts" by simp
  moreover from getContoursLoop_wellSplit [OF l] have "wellSplit cs" by (simp add: wellSplit_def)
  ultimately show "\<exists>cs. getContours g = Inr cs \<and> concat cs = pts \<and> wellSplit cs"
    using a l cur by (simp add: getContours_def checkArgument_def)
next
  assume a: "points g = Some pts \<and> pts \<noteq> [] \<and> \<not> lastPointOfContour (last pts)"
  obtain cs cur where l: "getContoursLoop pts [] [] = (cs, cur)" by (cases "getContoursLoop pts [] []")
  from getContoursLoop_rest [OF l] a have cur: "cur \<noteq> []" by simp
  then show "glyphToPath g tx ty = Inl (Error ''There are still points left in the current contour.'')"
    using a l by (simp add: glyphToPath_def getContours_def checkArgument_def Let_def)
qed

theorem getContours_partition_witness:
  "(\<exists>cs. getContours ((emptyGlyph 0)\<lparr>points := Some
       [\<lparr>point_x = 0, point_y = 0, onCurve = True, lastPointOfContour = False\<rparr>,
        \<lparr>point_x = 4, point_y = 0, onCurve = True, lastPointOfContour = True\<rparr>,
        \<lparr>point_x = 9, point_y = 9, onCurve = True, lastPointOfContour = True\<rparr>]\<rparr>) = Inr cs \<and>
      concat cs =
       [\<lparr>point_x = 0, point_y = 0, onCurve = True, lastPointOfContour = False\<rparr>,
        \<lparr>point_x = 4, point_y = 0, onCurve = True, lastPointOfContour = True\<rparr>,
        \<lparr>point_x = 9, point_y = 9, onCurve = True, lastPointOfContour = True\<rparr>] \<and>
      wellSplit cs) \<and>
   glyphToPath ((emptyGlyph 0)\<lparr>points := Some
       [\<lparr>point_x = 0, point_y = 0, onCurve = True, lastPointOfContour = True\<rparr>,
        \<lparr>point_x = 4, point_y = 0, onCurve = True, lastPointOfContour = False\<rparr>]\<rparr>) None None
     = Inl (Error ''There are still points left in the current contour.'')"
proof -
  let ?pts1 = "[\<lparr>point_x = 0, point_y = 0, onCurve = True, lastPointOfContour = False\<rparr>,
        \<lparr>point_x = 4, point_y = 0, onCurve = True, lastPointOfContour = True\<rparr>,
        \<lparr>point_x = 9, point_y = 9, onCurve = True, lastPointOfContour = True\<rparr>]"
  let ?pts2 = "[\<lparr>point_x = 0, point_y = 0, onCurve = True, lastPointOfContour = True\<rparr>,
        \<lparr>point_x = 4, point_y = 0, onCurve = True, lastPointOfContour = False\<rparr>]"
  let ?g1 = "(emptyGlyph 0)\<lparr>points := Some ?pts1\<rparr>"
  let ?g2 = "(emptyGlyph 0)\<lparr>points := Some ?pts2\<rparr>"
  have h1: "points ?g1 = Some ?pts1 \<and> ?pts1 \<noteq> [] \<and> lastPointOfContour (last ?pts1)"
    by simp
  have h2: "points ?g2 = Some ?pts2 \<and> ?pts2 \<noteq> [] \<and> \<not> lastPointOfContour (last ?pts2)"
    by simp
  from getContours_partition [of ?g1 ?pts1] h1
  have "\<exists>cs. getContours ?g1 = Inr cs \<and> concat cs = ?pts1 \<and> wellSplit cs" by blast
  moreover from getContours_partition [of ?g2 ?pts2 None None] h2
  have "glyphToPath ?g2 None None
          = Inl (Error ''There are still points left in the current contour.'')" by blast
  ultimately show ?thesis by blast
qed

section \<open>Properties of the outline builder\<close>

lemma contourLoop_close_count:
  "contourLoop tx ty prevPt pts curvePt path = Inr (curvePt', path') \<Longrightarrow>
     length (filter (\<lambda>c. c = Z) path') = length (filter (\<lambda>c. c = Z) path)"
proof (induction pts arbitrary: prevPt curvePt path)
  case Nil
  then show ?case by simp
next
  case (Cons pt pts)
  from Cons.prems show ?case
    by (auto simp: Let_def split: if_splits option.splits dest!: Cons.IH)
qed

lemma contourToPath_close_count:
  assumes "contourToPath tx ty contour path = Inr path'"
  shows "length (filter (\<lambda>c. c = Z) path') = length (filter (\<lambda>c. c = Z) path)"
proof (cases contour)
  case Nil
  with assms show ?thesis by (simp add: contourToPath_def)
next
  case (Cons firstPt rest)
  with assms show ?thesis
    by (auto simp: contourToPath_def Let_def bindR_eq_Inr
          split: if_splits option.splits dest!: contourLoop_close_count)
qed

lemma eachContour_close_count:
  "eachContour tx ty contours path = Inr path' \<Longrightarrow>
     length (filter (\<lambda>c. c = Z) path') = length (filter (\<lambda>c. c = Z) path)"
proof (induction contours arbitrary: path)
  case Nil
  then show ?case by simp
next
  case (Cons contour contours)
  then show ?case
    by (auto simp: bindR_eq_Inr dest!: contourToPath_close_count)
qed

text \<open>
  Whatever the number of contours, a glyph with a point list gets exactly one close command.
\<close>

lemma glyphToPath_one_close:
  assumes "points g = Some pts" "glyphToPath g tx ty = Inr path"
  shows "length (filter (\<lambda>c. c = Z) path) = 1"
  using assms
  by (auto simp: glyphToPath_def Let_def bindR_eq_Inr dest!: eachContour_close_count)

text \<open>
  Claim C5 says that a glyph with \<open>n\<close> contours yields a path with \<open>n\<close> close commands. The
  code calls \<^verbatim>\<open>path.closePath()\<close> once, after the loop over the contours: a glyph with the two
  contours \<open>(0,0),(10,0)\<close> and \<open>(5,5)\<close> gets a path that ends both contours with the segment back
  to the first point and holds a single close command.
\<close>

theorem glyphToPath_two_contours_one_close:
  "getContours ((emptyGlyph 0)\<lparr>points := Some
       [\<lparr>point_x = 0, point_y = 0, onCurve = True, lastPointOfContour = False\<rparr>,
        \<lparr>point_x = 10, point_y = 0, onCurve = True, lastPointOfContour = True\<rparr>,
        \<lparr>point_x = 5, point_y = 5, onCurve = True, lastPointOfContour = True\<rparr>]\<rparr>)
     = Inr [[\<lparr>point_x = 0, point_y = 0, onCurve = True, lastPointOfContour = False\<rparr>,
             \<lparr>point_x = 10, point_y = 0, onCurve = True, lastPointOfContour = True\<rparr>],
            [\<lparr>point_x = 5, point_y = 5, onCurve = True, lastPointOfContour = True\<rparr>]] \<and>
   glyphToPath ((emptyGlyph 0)\<lparr>points := Some
       [\<lparr>point_x = 0, point_y = 0, onCurve = True, lastPointOfContour = False\<rparr>,
        \<lparr>point_x = 10, point_y = 0, onCurve = True, lastPointOfContour = True\<rparr>,
        \<lparr>point_x = 5, point_y = 5, onCurve = True, lastPointOfContour = True\<rparr>]\<rparr>) None None
     = Inr [M 0 0, L 10 0, L 0 0, M 5 (- 5), L 5 (- 5), Z]"
  by (simp add: emptyGlyph_def getContours_def glyphToPath_def contourToPath_def
        checkArgument_def)

section \<open>Properties of the glyf decoder\<close>

lemma mapR_Inr:
  "mapR f xs = Inr ys \<Longrightarrow> length ys = length xs \<and> (\<forall>i < length xs. f (xs ! i) = Inr (ys ! i))"
proof (induction xs arbitrary: ys)
  case Nil
  then show ?case by simp
next
  case (Cons a as)
  from Cons.prems obtain b bs where b: "f a = Inr b" and bs: "mapR f as = Inr bs" and ys: "ys = b # bs"
    by (auto simp: bindR_eq_Inr)
  from Cons.IH [OF bs] b ys show ?case
    by (auto simp: nth_Cons split: nat.splits)
qed

lemma parseGlyfEntries_Inr:
  assumes "parseGlyfEntries data start loca = Inr glyphs"
  shows "length glyphs = length loca - 1"
    and "i < length loca - 1 \<Longrightarrow> parseGlyfEntry data start loca i = Inr (glyphs ! i)"
  using mapR_Inr [OF assms [unfolded parseGlyfEntries_def]] by auto

lemma grows_refl: "grows glyphs glyphs"
proof -
  have "\<exists>p. g = g\<lparr>points := p\<rparr>" for g :: glyph
    by (rule exI [of _ "points g"]) simp
  then show ?thesis by (simp add: grows_def)
qed

lemma grows_trans:
  assumes "grows a b" "grows b c"
  shows "grows a c"
  unfolding grows_def
proof (intro conjI allI impI)
  show "length c = length a" using assms by (simp add: grows_def)
next
  fix k assume k: "k < length a"
  then have kb: "k < length b" using assms by (simp add: grows_def)
  { assume "\<not> isComposite (a ! k)"
    then show "c ! k = a ! k" using assms k kb by (simp add: grows_def) }
  { from assms(1) k obtain p1 where "b ! k = (a ! k)\<lparr>points := p1\<rparr>"
      unfolding grows_def by blast
    moreover from assms(2) kb obtain p2 where "c ! k = (b ! k)\<lparr>points := p2\<rparr>"
      unfolding grows_def by blast
    ultimately have "c ! k = (a ! k)\<lparr>points := p2\<rparr>" by simp
    then show "\<exists>p. c ! k = (a ! k)\<lparr>points := p\<rparr>" .. }
  show "isComposite (c ! k) = isComposite (a ! k)" using assms k kb by (simp add: grows_def)
  show "components (c ! k) = components (a ! k)" using assms k kb by (simp add: grows_def)
  { fix pts assume "points (a ! k) = Some pts"
    then obtain e1 where e1: "points (b ! k) = Some (pts @ e1)"
      using assms(1) k unfolding grows_def by blast
    then obtain e2 where "points (c ! k) = Some ((pts @ e1) @ e2)"
      using assms(2) kb unfolding grows_def by blast
    then show "\<exists>extra. points (c ! k) = Some (pts @ extra)" by simp }
qed

lemma grows_update:
  assumes "i < length glyphs" "isComposite (glyphs ! i)" "points (glyphs ! i) = Some pts"
  shows "grows glyphs (glyphs[i := (glyphs ! i)\<lparr>points := Some (pts @ extra)\<rparr>])"
  using assms grows_refl [of glyphs] by (auto simp: grows_def nth_list_update)

lemma resolveComponents_grows:
  "resolveComponents glyphs i cs = Inr glyphs' \<Longrightarrow> i < length glyphs \<Longrightarrow>
     isComposite (glyphs ! i) \<Longrightarrow> grows glyphs glyphs'"
proof (induction cs arbitrary: glyphs)
  case Nil
  then show ?case by (simp add: grows_refl)
next
  case (Cons c cs)
  from Cons.prems(1) have inr: "0 \<le> glyphIndex c \<and> nat (glyphIndex c) < length glyphs"
    by (auto split: if_splits)
  show ?case
  proof (cases "points (glyphs ! nat (glyphIndex c))")
    case None
    with Cons.prems inr have "resolveComponents glyphs i cs = Inr glyphs'" by simp
    from Cons.IH [OF this Cons.prems(2,3)] show ?thesis .
  next
    case (Some cps)
    with Cons.prems(1) inr obtain pts where pts: "points (glyphs ! i) = Some pts"
      by (cases "points (glyphs ! i)") (auto simp: Let_def)
    let ?g1 = "glyphs[i := (glyphs ! i)\<lparr>points := Some (pts @ transformPoints cps (dx c) (dy c))\<rparr>]"
    from Cons.prems(1) inr Some pts have r: "resolveComponents ?g1 i cs = Inr glyphs'"
      by (simp add: Let_def)
    have g1: "grows glyphs ?g1"
      using Cons.prems(2,3) pts by (rule grows_update)
    have "grows ?g1 glyphs'"
      using r Cons.prems(2,3) by (intro Cons.IH) simp_all
    with g1 show ?thesis by (rule grows_trans)
  qed
qed

lemma resolveGlyph_grows:
  "resolveGlyph glyphs i = Inr glyphs' \<Longrightarrow> i < length glyphs \<Longrightarrow> grows glyphs glyphs'"
  by (auto simp: resolveGlyph_def grows_refl split: if_splits intro: resolveComponents_grows)

lemma resolveAll_grows:
  "resolveAll glyphs is = Inr glyphs' \<Longrightarrow> \<forall>i \<in> set is. i < length glyphs \<Longrightarrow>
     grows glyphs glyphs'"
proof (induction "is" arbitrary: glyphs)
  case Nil
  then show ?case by (simp add: grows_refl)
next
  case (Cons i "is")
  from Cons.prems(1) obtain g1 where g1: "resolveGlyph glyphs i = Inr g1"
    and r: "resolveAll g1 is = Inr glyphs'"
    by (auto simp: bindR_eq_Inr)
  from resolveGlyph_grows [OF g1] Cons.prems(2) have gr: "grows glyphs g1" by simp
  then have "length g1 = length glyphs" by (simp add: grows_def)
  with Cons.prems(2) have "\<forall>i \<in> set is. i < length g1" by simp
  from Cons.IH [OF r this] gr show ?case by (blast intro: grows_trans)
qed

lemma parseGlyfTable_grows:
  assumes "parseGlyfEntries data start loca = Inr glyphs"
    and "parseGlyfTable data start loca = Inr glyphs'"
  shows "grows glyphs glyphs'"
proof -
  from assms have "resolveAll glyphs [0 ..< length glyphs] = Inr glyphs'"
    by (simp add: parseGlyfTable_def)
  then show ?thesis by (rule resolveAll_grows) simp
qed

lemma parseGlyfTable_entries:
  assumes "parseGlyfTable data start loca = Inr glyphs'"
  obtains glyphs where "parseGlyfEntries data start loca = Inr glyphs"
  using assms by (auto simp: parseGlyfTable_def bindR_eq_Inr)

lemma transformPoints_translate:
  "pt \<in> set cps \<Longrightarrow> translatePoint pt ddx ddy \<in> set (transformPoints cps ddx ddy)"
  by (auto simp: transformPoints_def translatePoint_def)

lemma grows_points_mono:
  assumes "grows glyphs glyphs'" "k < length glyphs" "points (glyphs ! k) = Some pts" "q \<in> set pts"
  shows "\<exists>pts'. points (glyphs' ! k) = Some pts' \<and> q \<in> set pts'"
proof -
  from assms(1-3) obtain extra where "points (glyphs' ! k) = Some (pts @ extra)"
    unfolding grows_def by blast
  with assms(4) show ?thesis by simp
qed

lemma resolveComponents_translates:
  "resolveComponents glyphs i cs = Inr glyphs' \<Longrightarrow> i < length glyphs \<Longrightarrow>
     isComposite (glyphs ! i) \<Longrightarrow> c \<in> set cs \<Longrightarrow>
     points (glyphs ! nat (glyphIndex c)) = Some cps \<Longrightarrow> pt \<in> set cps \<Longrightarrow>
     \<exists>pts. points (glyphs' ! i) = Some pts \<and> translatePoint pt (dx c) (dy c) \<in> set pts"
proof (induction cs arbitrary: glyphs cps)
  case Nil
  then show ?case by simp
next
  case (Cons c' cs)
  from Cons.prems(1) have inr: "0 \<le> glyphIndex c' \<and> nat (glyphIndex c') < length glyphs"
    by (auto split: if_splits)
  show ?case
  proof (cases "points (glyphs ! nat (glyphIndex c'))")
    case None
    with Cons.prems(1) inr have r: "resolveComponents glyphs i cs = Inr glyphs'" by simp
    from None Cons.prems(4,5) have "c \<in> set cs" by auto
    from Cons.IH [OF r Cons.prems(2,3) this Cons.prems(5,6)] show ?thesis .
  next
    case (Some cps')
    with Cons.prems(1) inr obtain pts where pts: "points (glyphs ! i) = Some pts"
      by (cases "points (glyphs ! i)") (auto simp: Let_def)
    let ?new = "pts @ transformPoints cps' (dx c') (dy c')"
    let ?g1 = "glyphs[i := (glyphs ! i)\<lparr>points := Some ?new\<rparr>]"
    from Cons.prems(1) inr Some pts have r: "resolveComponents ?g1 i cs = Inr glyphs'"
      by (simp add: Let_def)
    have i1: "i < length ?g1" "isComposite (?g1 ! i)"
      using Cons.prems(2,3) by simp_all
    show ?thesis
    proof (cases "c = c'")
      case True
      with Some Cons.prems(5) have "cps' = cps" by simp
      with Cons.prems(6) True have "translatePoint pt (dx c) (dy c) \<in> set ?new"
        by (simp add: transformPoints_translate)
      moreover have "points (?g1 ! i) = Some ?new" using Cons.prems(2) by simp
      moreover have "grows ?g1 glyphs'" using r i1 by (rule resolveComponents_grows)
      ultimately show ?thesis using grows_points_mono i1(1) by blast
    next
      case False
      with Cons.prems(4) have c: "c \<in> set cs" by simp
      have "\<exists>cps1. points (?g1 ! nat (glyphIndex c)) = Some cps1 \<and> pt \<in> set cps1"
      proof (cases "nat (glyphIndex c) = i")
        case True
        with Cons.prems(5) pts have "cps = pts" by simp
        with True Cons.prems(2,6) show ?thesis by simp
      next
        case False
        with Cons.prems(5,6) show ?thesis by simp
      qed
      then obtain cps1 where "points (?g1 ! nat (glyphIndex c)) = Some cps1" "pt \<in> set cps1"
        by blast
      from Cons.IH [OF r i1 c this] show ?thesis .
    qed
  qed
qed

lemma resolveAll_translates:
  "resolveAll glyphs is = Inr glyphs' \<Longrightarrow> \<forall>j \<in> set is. j < length glyphs \<Longrightarrow> i \<in> set is \<Longrightarrow>
     isComposite (glyphs ! i) \<Longrightarrow> c \<in> set (components (glyphs ! i)) \<Longrightarrow>
     nat (glyphIndex c) < length glyphs \<Longrightarrow>
     points (glyphs ! nat (glyphIndex c)) = Some cps \<Longrightarrow> pt \<in> set cps \<Longrightarrow>
     \<exists>pts. points (glyphs' ! i) = Some pts \<and> translatePoint pt (dx c) (dy c) \<in> set pts"
proof (induction "is" arbitrary: glyphs cps)
  case Nil
  then show ?case by simp
next
  case (Cons j "is")
  from Cons.prems(1) obtain g1 where g1: "resolveGlyph glyphs j = Inr g1"
    and r: "resolveAll g1 is = Inr glyphs'"
    by (auto simp: bindR_eq_Inr)
  from Cons.prems(2) have j: "j < length glyphs" and i: "i < length glyphs"
    using Cons.prems(3) by auto
  from resolveGlyph_grows [OF g1 j] have gr: "grows glyphs g1" .
  then have len: "length g1 = length glyphs" by (simp add: grows_def)
  with Cons.prems(2) have all: "\<forall>j \<in> set is. j < length g1" by simp
  show ?case
  proof (cases "j = i")
    case True
    with g1 Cons.prems(4) have "resolveComponents glyphs i (components (glyphs ! i)) = Inr g1"
      by (simp add: resolveGlyph_def)
    from resolveComponents_translates [OF this i Cons.prems(4,5,7,8)]
    obtain pts where "points (g1 ! i) = Some pts" "translatePoint pt (dx c) (dy c) \<in> set pts"
      by blast
    moreover have "grows g1 glyphs'" using r all by (rule resolveAll_grows)
    ultimately show ?thesis using grows_points_mono i len by metis
  next
    case False
    with Cons.prems(3) have i': "i \<in> set is" by simp
    from gr i Cons.prems(4,5) have c1: "isComposite (g1 ! i)" "c \<in> set (components (g1 ! i))"
      by (simp_all add: grows_def)
    from grows_points_mono [OF gr Cons.prems(6,7,8)]
    obtain cps1 where "points (g1 ! nat (glyphIndex c)) = Some cps1" "pt \<in> set cps1" by blast
    from Cons.IH [OF r all i' c1 _ this] Cons.prems(6) len show ?thesis by simp
  qed
qed

text \<open>
  Claim C7. Composite glyphs are resolved in a second pass over the decoded array: when glyph
  \<open>i\<close> of the first pass is composite and has a component with glyph index \<open>k\<close> and offsets
  \<open>(dx, dy)\<close>, and glyph \<open>k\<close> of the first pass has a point \<open>pt\<close>, then the points of glyph \<open>i\<close>
  in the result of \<^verbatim>\<open>parseGlyfTable\<close> contain \<open>pt\<close> moved by \<open>(dx, dy)\<close>, with the flags
  \<^verbatim>\<open>onCurve\<close> and \<^verbatim>\<open>lastPointOfContour\<close> of \<open>pt\<close>. With \<open>k = 3\<close>, \<open>(dx, dy) = (10, 20)\<close> and
  \<open>pt = (5, 5)\<close> this is the point \<open>(15, 25)\<close>.
\<close>

theorem composite_points_translated:
  assumes "parseGlyfEntries data start loca = Inr glyphs"
    and "parseGlyfTable data start loca = Inr glyphs'"
    and "i < length glyphs" "isComposite (glyphs ! i)" "c \<in> set (components (glyphs ! i))"
    and "glyphIndex c = int k" "k < length glyphs"
    and "points (glyphs ! k) = Some cps" "pt \<in> set cps"
  shows "\<exists>pts. points (glyphs' ! i) = Some pts \<and>
           \<lparr>point_x = point_x pt + dx c, point_y = point_y pt + dy c,
            onCurve = onCurve pt, lastPointOfContour = lastPointOfContour pt\<rparr> \<in> set pts"
proof -
  from assms(1,2) have r: "resolveAll glyphs [0 ..< length glyphs] = Inr glyphs'"
    by (simp add: parseGlyfTable_def)
  have k: "nat (glyphIndex c) < length glyphs" "points (glyphs ! nat (glyphIndex c)) = Some cps"
    using assms(6,7,8) by simp_all
  from resolveAll_translates [OF r _ _ assms(4,5) k assms(9)] assms(3)
  show ?thesis by (simp add: translatePoint_def)
qed

theorem composite_points_translated_witness:
  "parseGlyfEntries
     [0, 1, 0, 0, 0, 0, 0, 5, 0, 5, 0, 0, 0, 0, 0x37, 5, 5,
      255, 255, 0, 15, 0, 25, 0, 15, 0, 25, 0, 0, 0, 3, 10, 20] 0 [0, 0, 0, 0, 17, 33]
     = Inr [emptyGlyph 0, emptyGlyph 1, emptyGlyph 2,
            \<lparr>index = 3, numberOfContours = 1, xMin = 0, yMin = 0, xMax = 5, yMax = 5,
              endPointIndices = [0], instructionLength = 0, instructions = [],
              points = Some [\<lparr>point_x = 5, point_y = 5, onCurve = True,
                               lastPointOfContour = True\<rparr>],
              isComposite = False, components = []\<rparr>,
            \<lparr>index = 4, numberOfContours = - 1, xMin = 15, yMin = 25, xMax = 15, yMax = 25,
              endPointIndices = [], instructionLength = 0, instructions = [],
              points = Some [], isComposite = True,
              components = [\<lparr>glyphIndex = 3, dx = 10, dy = 20\<rparr>]\<rparr>] \<and>
   (\<exists>glyphs' pts.
      parseGlyfTable
        [0, 1, 0, 0, 0, 0, 0, 5, 0, 5, 0, 0, 0, 0, 0x37, 5, 5,
         255, 255, 0, 15, 0, 25, 0, 15, 0, 25, 0, 0, 0, 3, 10, 20] 0 [0, 0, 0, 0, 17, 33]
        = Inr glyphs' \<and>
      points (glyphs' ! 4) = Some pts \<and>
      \<lparr>point_x = 15, point_y = 25, onCurve = True, lastPointOfContour = True\<rparr> \<in> set pts)"
proof -
  let ?data = "[0, 1, 0, 0, 0, 0, 0, 5, 0, 5, 0, 0, 0, 0, 0x37, 5, 5,
      255, 255, 0, 15, 0, 25, 0, 15, 0, 25, 0, 0, 0, 3, 10, 20] :: dataView"
  let ?loca = "[0, 0, 0, 0, 17, 33] :: nat list"
  let ?pt = "\<lparr>point_x = 5, point_y = 5, onCurve = True, lastPointOfContour = True\<rparr>"
  let ?c = "\<lparr>glyphIndex = 3, dx = 10, dy = 20\<rparr>"
  let ?glyphs = "[emptyGlyph 0, emptyGlyph 1, emptyGlyph 2,
            \<lparr>index = 3, numberOfContours = 1, xMin = 0, yMin = 0, xMax = 5, yMax = 5,
              endPointIndices = [0], instructionLength = 0, instructions = [],
              points = Some [?pt], isComposite = False, components = []\<rparr>,
            \<lparr>index = 4, numberOfContours = - 1, xMin = 15, yMin = 25, xMax = 15, yMax = 25,
              endPointIndices = [], instructionLength = 0, instructions = [],
              points = Some [], isComposite = True, components = [?c]\<rparr>]"
  have e: "parseGlyfEntries ?data 0 ?loca = Inr ?glyphs"
    by code_simp
  obtain glyphs' where t: "parseGlyfTable ?data 0 ?loca = Inr glyphs'"
    by (simp add: parseGlyfTable_def e resolveGlyph_def emptyGlyph_def transformPoints_def)
  have "\<exists>pts. points (glyphs' ! 4) = Some pts \<and>
           \<lparr>point_x = point_x ?pt + dx ?c, point_y = point_y ?pt + dy ?c,
            onCurve = onCurve ?pt, lastPointOfContour = lastPointOfContour ?pt\<rparr> \<in> set pts"
    by (rule composite_points_translated [OF e t, where k = 3 and cps = "[?pt]"]) simp_all
  with e t show ?thesis by auto
qed

lemma grows_numberOfContours:
  assumes "grows glyphs glyphs'" "k < length glyphs"
  shows "numberOfContours (glyphs' ! k) = numberOfContours (glyphs ! k)"
proof -
  from assms obtain p where "glyphs' ! k = (glyphs ! k)\<lparr>points := p\<rparr>"
    unfolding grows_def by blast
  then show ?thesis by simp
qed

lemma parseShort_at:
  assumes "parseShort p = Inr (v, p')" "dataView p = data" "offset p = start"
    "relativeOffset p = r"
  shows "getShort data (start + r) = Inr v \<and> dataView p' = data \<and> offset p' = start \<and>
         relativeOffset p' = r + 2"
  using assms by (auto simp: parseShort_def bindR_eq_Inr)

lemma parseSimpleGlyph_shape:
  assumes "parseSimpleGlyph g p = Inr g'"
  shows "\<exists>e il ins pts. g' = g\<lparr>endPointIndices := e, instructionLength := il,
            instructions := ins, points := Some pts\<rparr>"
  using assms unfolding parseSimpleGlyph_def
  by (auto simp: bindR_eq_Inr Let_def checkArgument_Inr split: if_splits)

lemma parseSimpleGlyph_fields:
  assumes "parseSimpleGlyph g p = Inr g'"
  shows "index g' = index g \<and> numberOfContours g' = numberOfContours g \<and>
         xMin g' = xMin g \<and> yMin g' = yMin g \<and> xMax g' = xMax g \<and> yMax g' = yMax g \<and>
         isComposite g' = isComposite g"
  using parseSimpleGlyph_shape [OF assms] by auto

lemma parseCompositeGlyph_fields:
  assumes "parseCompositeGlyph g p = Inr g'"
  shows "index g' = index g \<and> numberOfContours g' = numberOfContours g \<and>
         xMin g' = xMin g \<and> yMin g' = yMin g \<and> xMax g' = xMax g \<and> yMax g' = yMax g \<and>
         isComposite g'"
  using assms unfolding parseCompositeGlyph_def
  by (auto simp: bindR_eq_Inr)

lemma parseGlyph_parts:
  assumes "parseGlyph data start idx = Inr g"
  obtains n p1 x0 p2 y0 p3 x1 p4 y1 p5 where
    "parseShort (Parser data start) = Inr (n, p1)" "parseShort p1 = Inr (x0, p2)"
    "parseShort p2 = Inr (y0, p3)" "parseShort p3 = Inr (x1, p4)" "parseShort p4 = Inr (y1, p5)"
    "(if n > 0 then parseSimpleGlyph \<lparr>index = idx, numberOfContours = n,
                    xMin = x0, yMin = y0, xMax = x1, yMax = y1,
                    endPointIndices = [], instructionLength = 0, instructions = [],
                    points = None, isComposite = False, components = []\<rparr> p5
      else if n = 0 then Inr (\<lparr>index = idx, numberOfContours = n,
                    xMin = x0, yMin = y0, xMax = x1, yMax = y1,
                    endPointIndices = [], instructionLength = 0, instructions = [],
                    points = None, isComposite = False, components = []\<rparr>\<lparr>points := Some []\<rparr>)
      else parseCompositeGlyph \<lparr>index = idx, numberOfContours = n,
                    xMin = x0, yMin = y0, xMax = x1, yMax = y1,
                    endPointIndices = [], instructionLength = 0, instructions = [],
                    points = None, isComposite = False, components = []\<rparr> p5) = Inr g"
  using assms unfolding parseGlyph_def
  by (auto simp: bindR_eq_Inr Let_def)

lemma parseGlyph_fields:
  assumes "parseGlyph data start idx = Inr g"
  obtains n p1 x0 p2 y0 p3 x1 p4 y1 p5 where
    "parseShort (Parser data start) = Inr (n, p1)" "parseShort p1 = Inr (x0, p2)"
    "parseShort p2 = Inr (y0, p3)" "parseShort p3 = Inr (x1, p4)" "parseShort p4 = Inr (y1, p5)"
    "index g = idx" "numberOfContours g = n" "xMin g = x0" "yMin g = y0" "xMax g = x1"
    "yMax g = y1" "n = 0 \<longrightarrow> points g = Some []" "isComposite g \<longrightarrow> n < 0"
proof -
  from assms obtain n p1 x0 p2 y0 p3 x1 p4 y1 p5 where
    s: "parseShort (Parser data start) = Inr (n, p1)" "parseShort p1 = Inr (x0, p2)"
    "parseShort p2 = Inr (y0, p3)" "parseShort p3 = Inr (x1, p4)" "parseShort p4 = Inr (y1, p5)"
    and b: "(if n > 0 then parseSimpleGlyph \<lparr>index = idx, numberOfContours = n,
                    xMin = x0, yMin = y0, xMax = x1, yMax = y1,
                    endPointIndices = [], instructionLength = 0, instructions = [],
                    points = None, isComposite = False, components = []\<rparr> p5
      else if n = 0 then Inr (\<lparr>index = idx, numberOfContours = n,
                    xMin = x0, yMin = y0, xMax = x1, yMax = y1,
                    endPointIndices = [], instructionLength = 0, instructions = [],
                    points = None, isComposite = False, components = []\<rparr>\<lparr>points := Some []\<rparr>)
      else parseCompositeGlyph \<lparr>index = idx, numberOfContours = n,
                    xMin = x0, yMin = y0, xMax = x1, yMax = y1,
                    endPointIndices = [], instructionLength = 0, instructions = [],
                    points = None, isComposite = False, components = []\<rparr> p5) = Inr g"
    by (rule parseGlyph_parts)
  from b have "index g = idx \<and> numberOfContours g = n \<and> xMin g = x0 \<and> yMin g = y0 \<and>
      xMax g = x1 \<and> yMax g = y1 \<and> (n = 0 \<longrightarrow> points g = Some []) \<and> (isComposite g \<longrightarrow> n < 0)"
    by (auto split: if_splits dest!: parseSimpleGlyph_fields parseCompositeGlyph_fields)
  with s that show thesis by blast
qed

text \<open>The header of a decoded glyph is what the five signed shorts at its offset hold.\<close>

lemma parseGlyph_header:
  assumes "parseGlyph data start idx = Inr g"
  shows "index g = idx \<and> getShort data start = Inr (numberOfContours g) \<and>
         getShort data (start + 2) = Inr (xMin g) \<and> getShort data (start + 4) = Inr (yMin g) \<and>
         getShort data (start + 6) = Inr (xMax g) \<and> getShort data (start + 8) = Inr (yMax g)"
proof -
  from assms obtain n p1 x0 p2 y0 p3 x1 p4 y1 p5 where
    s: "parseShort (Parser data start) = Inr (n, p1)" "parseShort p1 = Inr (x0, p2)"
    "parseShort p2 = Inr (y0, p3)" "parseShort p3 = Inr (x1, p4)" "parseShort p4 = Inr (y1, p5)"
    and f: "index g = idx" "numberOfContours g = n" "xMin g = x0" "yMin g = y0" "xMax g = x1"
    "yMax g = y1"
    by (rule parseGlyph_fields)
  have a1: "getShort data (start + 0) = Inr n \<and> dataView p1 = data \<and> offset p1 = start \<and>
      relativeOffset p1 = 0 + 2"
    by (rule parseShort_at [OF s(1)]) (simp_all add: Parser_def)
  then have a2: "getShort data (start + 2) = Inr x0 \<and> dataView p2 = data \<and> offset p2 = start \<and>
      relativeOffset p2 = 2 + 2"
    by (intro parseShort_at [OF s(2)]) simp_all
  then have a3: "getShort data (start + 4) = Inr y0 \<and> dataView p3 = data \<and> offset p3 = start \<and>
      relativeOffset p3 = 4 + 2"
    by (intro parseShort_at [OF s(3)]) simp_all
  then have a4: "getShort data (start + 6) = Inr x1 \<and> dataView p4 = data \<and> offset p4 = start \<and>
      relativeOffset p4 = 6 + 2"
    by (intro parseShort_at [OF s(4)]) simp_all
  then have a5: "getShort data (start + 8) = Inr y1 \<and> dataView p5 = data \<and> offset p5 = start \<and>
      relativeOffset p5 = 8 + 2"
    by (intro parseShort_at [OF s(5)]) simp_all
  from a1 a2 a3 a4 a5 f show ?thesis by simp
qed

lemma parseGlyph_zero_contours:
  assumes "parseGlyph data start idx = Inr g" "numberOfContours g = 0"
  shows "points g = Some [] \<and> \<not> isComposite g"
proof -
  from assms(1) obtain n where "numberOfContours g = n" "n = 0 \<longrightarrow> points g = Some []"
    "isComposite g \<longrightarrow> n < 0"
    by (rule parseGlyph_fields)
  with assms(2) show ?thesis by auto
qed

lemma parseGlyph_composite_negative:
  assumes "parseGlyph data start idx = Inr g" "isComposite g"
  shows "numberOfContours g < 0"
proof -
  from assms(1) obtain n where "numberOfContours g = n" "isComposite g \<longrightarrow> n < 0"
    by (rule parseGlyph_fields)
  with assms(2) show ?thesis by auto
qed

text \<open>
  Claim C4, as amended. A glyph whose two offsets in \<^verbatim>\<open>loca\<close> are equal is decoded with contour
  count 0, no point list and the bounding box \<open>(0, 0, 0, 0)\<close>, and its path has no command. A
  glyph decoded from a header with contour count 0 has the empty point list and the bounding
  box that its header stores.
\<close>

theorem zero_contour_glyphs:
  "(parseGlyfTable data start loca = Inr glyphs \<and> i + 1 < length loca \<and>
      loca ! i = loca ! (i + 1) \<longrightarrow>
        numberOfContours (glyphs ! i) = 0 \<and> points (glyphs ! i) = None \<and>
        xMin (glyphs ! i) = 0 \<and> yMin (glyphs ! i) = 0 \<and>
        xMax (glyphs ! i) = 0 \<and> yMax (glyphs ! i) = 0 \<and>
        glyphToPath (glyphs ! i) tx ty = Inr []) \<and>
   (parseGlyfTable data start loca = Inr glyphs \<and> i + 1 < length loca \<and>
      loca ! i \<noteq> loca ! (i + 1) \<and> numberOfContours (glyphs ! i) = 0 \<longrightarrow>
        points (glyphs ! i) = Some [] \<and>
        getShort data (start + loca ! i + 2) = Inr (xMin (glyphs ! i)) \<and>
        getShort data (start + loca ! i + 4) = Inr (yMin (glyphs ! i)) \<and>
        getShort data (start + loca ! i + 6) = Inr (xMax (glyphs ! i)) \<and>
        getShort data (start + loca ! i + 8) = Inr (yMax (glyphs ! i)))"
proof (intro conjI impI)
  assume a: "parseGlyfTable data start loca = Inr glyphs \<and> i + 1 < length loca \<and>
      loca ! i = loca ! (i + 1)"
  then obtain gs where gs: "parseGlyfEntries data start loca = Inr gs"
    by (blast elim: parseGlyfTable_entries)
  from a have i: "i < length loca - 1" by linarith
  from parseGlyfEntries_Inr(2) [OF gs i] a have e: "gs ! i = emptyGlyph i"
    by (simp add: parseGlyfEntry_def)
  have "grows gs glyphs" using gs a by (blast intro: parseGlyfTable_grows)
  with i parseGlyfEntries_Inr(1) [OF gs] e have g: "glyphs ! i = emptyGlyph i"
    by (simp add: grows_def emptyGlyph_def)
  show "numberOfContours (glyphs ! i) = 0" "points (glyphs ! i) = None"
    "xMin (glyphs ! i) = 0" "yMin (glyphs ! i) = 0" "xMax (glyphs ! i) = 0" "yMax (glyphs ! i) = 0"
    "glyphToPath (glyphs ! i) tx ty = Inr []"
    unfolding g by (simp_all add: emptyGlyph_def glyphToPath_def)
next
  assume a: "parseGlyfTable data start loca = Inr glyphs \<and> i + 1 < length loca \<and>
      loca ! i \<noteq> loca ! (i + 1) \<and> numberOfContours (glyphs ! i) = 0"
  then obtain gs where gs: "parseGlyfEntries data start loca = Inr gs"
    by (blast elim: parseGlyfTable_entries)
  from a have i: "i < length loca - 1" by linarith
  from parseGlyfEntries_Inr(2) [OF gs i] a
  have p: "parseGlyph data (start + loca ! i) i = Inr (gs ! i)"
    by (simp add: parseGlyfEntry_def)
  have gr: "grows gs glyphs" using gs a by (blast intro: parseGlyfTable_grows)
  have il: "i < length gs" using i parseGlyfEntries_Inr(1) [OF gs] by simp
  from grows_numberOfContours [OF gr il] a have "numberOfContours (gs ! i) = 0" by simp
  from parseGlyph_zero_contours [OF p this] have z: "points (gs ! i) = Some []" "\<not> isComposite (gs ! i)"
    by simp_all
  with gr il have g: "glyphs ! i = gs ! i" by (simp add: grows_def)
  from parseGlyph_header [OF p] z(1)
  show "points (glyphs ! i) = Some []"
    "getShort data (start + loca ! i + 2) = Inr (xMin (glyphs ! i))"
    "getShort data (start + loca ! i + 4) = Inr (yMin (glyphs ! i))"
    "getShort data (start + loca ! i + 6) = Inr (xMax (glyphs ! i))"
    "getShort data (start + loca ! i + 8) = Inr (yMax (glyphs ! i))"
    unfolding g by simp_all
qed

theorem zero_contour_glyphs_witness:
  "parseGlyfTable [0, 0, 0, 1, 0, 2, 0, 3, 0, 4] 0 [0, 0, 10]
     = Inr [emptyGlyph 0,
            \<lparr>index = 1, numberOfContours = 0, xMin = 1, yMin = 2, xMax = 3, yMax = 4,
              endPointIndices = [], instructionLength = 0, instructions = [],
              points = Some [], isComposite = False, components = []\<rparr>] \<and>
   glyphToPath (emptyGlyph 0) None None = Inr [] \<and>
   getShort [0, 0, 0, 1, 0, 2, 0, 3, 0, 4] 2 = Inr 1 \<and>
   getShort [0, 0, 0, 1, 0, 2, 0, 3, 0, 4] 8 = Inr 4"
proof -
  let ?data = "[0, 0, 0, 1, 0, 2, 0, 3, 0, 4] :: dataView"
  let ?g = "\<lparr>index = 1, numberOfContours = 0, xMin = 1, yMin = 2, xMax = 3, yMax = 4,
              endPointIndices = [], instructionLength = 0, instructions = [],
              points = Some [], isComposite = False, components = []\<rparr>"
  have t: "parseGlyfTable ?data 0 [0, 0, 10] = Inr [emptyGlyph 0, ?g]"
    by code_simp
  from zero_contour_glyphs [of ?data 0 "[0, 0, 10]" "[emptyGlyph 0, ?g]" 0 None None] t
  have "glyphToPath (emptyGlyph 0) None None = Inr []" by simp
  moreover from zero_contour_glyphs [of ?data 0 "[0, 0, 10]" "[emptyGlyph 0, ?g]" 1] t
  have "getShort ?data 2 = Inr 1 \<and> getShort ?data 8 = Inr 4" by (simp add: numeral_2_eq_2)
  ultimately show ?thesis using t by simp
qed

text \<open>
  Claim C4 as stated fails on a glyph that is decoded from a header with contour count 0: its
  bounding box is the one of the header, here \<open>(1, 2, 3, 4)\<close>, and its path is the single
  command that \<^verbatim>\<open>closePath\<close> pushes.
\<close>

theorem zero_contour_glyphs_counterexample:
  "parseGlyfTable [0, 0, 0, 1, 0, 2, 0, 3, 0, 4] 0 [0, 10]
     = Inr [\<lparr>index = 0, numberOfContours = 0, xMin = 1, yMin = 2, xMax = 3, yMax = 4,
              endPointIndices = [], instructionLength = 0, instructions = [],
              points = Some [], isComposite = False, components = []\<rparr>] \<and>
   glyphToPath \<lparr>index = 0, numberOfContours = 0, xMin = 1, yMin = 2, xMax = 3, yMax = 4,
              endPointIndices = [], instructionLength = 0, instructions = [],
              points = Some [], isComposite = False, components = []\<rparr> None None = Inr [Z]"
  by code_simp

text \<open>
  Claim C10. When bit 0 of a component's flags is clear, the two translation arguments are
  read with \<^verbatim>\<open>parseByte\<close>, that is as unsigned bytes: \<open>dx\<close> and \<open>dy\<close> are the values of the two
  bytes after the glyph index, each between 0 and 255 and never negative.
\<close>

theorem parseComponent_byte_arguments:
  assumes "parseComponent p = Inr (c, mc, p')"
    and "parseUShort p = Inr (flags, p1)"
    and "\<not> isBitSet flags 0"
  shows "dx c = uint (dataView p ! (offset p + relativeOffset p + 4)) \<and>
         dy c = uint (dataView p ! (offset p + relativeOffset p + 5)) \<and>
         0 \<le> dx c \<and> dx c \<le> 255 \<and> 0 \<le> dy c \<and> dy c \<le> 255"
proof -
  from assms obtain gi p2 arg1 p3 arg2 p4 where
    r2: "parseUShort p1 = Inr (gi, p2)" and
    r3: "parseByte p2 = Inr (arg1, p3)" and r4: "parseByte p3 = Inr (arg2, p4)" and
    c: "dx c = arg1" "dy c = arg2"
    by (auto simp: parseComponent_def bindR_eq_Inr)
  from assms(2) have o1: "dataView p1 = dataView p" "offset p1 = offset p"
    "relativeOffset p1 = relativeOffset p + 2"
    by (auto simp: parseUShort_Inr)
  from r2 o1 have o2: "dataView p2 = dataView p" "offset p2 = offset p"
    "relativeOffset p2 = relativeOffset p + 4"
    by (auto simp: parseUShort_Inr)
  from r3 o2 have a1: "arg1 = uint (dataView p ! (offset p + relativeOffset p + 4))"
    and o3: "dataView p3 = dataView p" "offset p3 = offset p"
    "relativeOffset p3 = relativeOffset p + 5"
    by (auto simp: parseByte_Inr add.assoc)
  from r4 o3 have a2: "arg2 = uint (dataView p ! (offset p + relativeOffset p + 5))"
    by (auto simp: parseByte_Inr add.assoc)
  have b: "0 \<le> uint w \<and> uint w \<le> 255" for w :: "8 word"
    using uint_lt2p [of w] by simp
  from c a1 a2 b show ?thesis by simp
qed

theorem parseComponent_byte_arguments_witness:
  "parseComponent (Parser [0, 0, 0, 3, 200, 255] 0)
     = Inr (\<lparr>glyphIndex = 3, dx = 200, dy = 255\<rparr>, False,
            \<lparr>dataView = [0, 0, 0, 3, 200, 255], offset = 0, relativeOffset = 6\<rparr>) \<and>
   parseUShort (Parser [0, 0, 0, 3, 200, 255] 0)
     = Inr (0, \<lparr>dataView = [0, 0, 0, 3, 200, 255], offset = 0, relativeOffset = 2\<rparr>) \<and>
   \<not> isBitSet 0 0 \<and>
   dx \<lparr>glyphIndex = 3, dx = 200, dy = 255\<rparr> = uint ([0, 0, 0, 3, 200, 255 :: 8 word] ! 4) \<and>
   0 \<le> dx \<lparr>glyphIndex = 3, dx = 200, dy = 255\<rparr> \<and> dx \<lparr>glyphIndex = 3, dx = 200, dy = 255\<rparr> \<le> 255"
proof -
  let ?data = "[0, 0, 0, 3, 200, 255] :: dataView"
  have h1: "parseComponent (Parser ?data 0)
     = Inr (\<lparr>glyphIndex = 3, dx = 200, dy = 255\<rparr>, False,
            \<lparr>dataView = ?data, offset = 0, relativeOffset = 6\<rparr>)"
    by code_simp
  have h2: "parseUShort (Parser ?data 0)
     = Inr (0, \<lparr>dataView = ?data, offset = 0, relativeOffset = 2\<rparr>)"
    by code_simp
  have h3: "\<not> isBitSet 0 0"
    by code_simp
  from parseComponent_byte_arguments [OF h1 h2 h3] h1 h2 h3 show ?thesis
    by (simp add: Parser_def)
qed

section \<open>Properties of the character lookup\<close>

lemma toInt32_65535: "toInt32 65535 = mask 16"
  by (simp add: toInt32_def mask_eq_exp_minus_1)

lemma js_and_65535: "js_and a 0xFFFF = a mod 65536"
proof -
  have "js_and a 0xFFFF = take_bit 16 a"
    unfolding js_and_def toInt32_65535 unfolding toInt32_def
    by (rule bit_eqI) (auto simp add: bit_simps simp flip: take_bit_eq_mask)
  then show ?thesis by (simp add: take_bit_eq_mod)
qed

text \<open>
  The invariant of the search: a segment that starts at or below the code lies at or below
  \<open>r\<close>, and the segment at \<open>l\<close>, unless \<open>l\<close> is still 0, starts at or below the code.
\<close>

lemma searchSegment_left:
  assumes "l < r" "k < seg_start (ranges ! ((l + r + 1) div 2))"
  shows "searchSegment ranges (Some k) l r = searchSegment ranges (Some k) l ((l + r + 1) div 2 - 1)"
  using assms by (subst searchSegment.simps) (simp add: Let_def)

lemma searchSegment_right:
  assumes "l < r" "\<not> k < seg_start (ranges ! ((l + r + 1) div 2))"
  shows "searchSegment ranges (Some k) l r = searchSegment ranges (Some k) ((l + r + 1) div 2) r"
  using assms by (subst searchSegment.simps) (simp add: Let_def)

lemma searchSegment_stop: "\<not> l < r \<Longrightarrow> searchSegment ranges code l r = l"
  by (subst searchSegment.simps) simp

lemma searchSegment_bounds:
  "l \<le> r \<Longrightarrow> l \<le> searchSegment ranges (Some code) l r \<and> searchSegment ranges (Some code) l r \<le> r"
proof (induction ranges "Some code" l r rule: searchSegment.induct)
  case (1 ranges l r)
  show ?case
  proof (cases "l < r")
    case False
    with "1.prems" show ?thesis by (simp add: searchSegment_stop)
  next
    case True
    let ?c = "(l + r + 1) div 2"
    have c: "l < ?c" "?c \<le> r" using True by auto
    show ?thesis
    proof (cases "code < seg_start (ranges ! ?c)")
      case lt: True
      have "l \<le> searchSegment ranges (Some code) l (?c - 1) \<and>
            searchSegment ranges (Some code) l (?c - 1) \<le> ?c - 1"
        using True lt c by (intro "1.hyps"(1)) auto
      with c show ?thesis unfolding searchSegment_left [OF True lt] by linarith
    next
      case ge: False
      have "?c \<le> searchSegment ranges (Some code) ?c r \<and>
            searchSegment ranges (Some code) ?c r \<le> r"
        using True ge c by (intro "1.hyps"(2)) auto
      with c show ?thesis unfolding searchSegment_right [OF True ge] by linarith
    qed
  qed
qed

lemma searchSegment_finds:
  assumes "sorted (map seg_start ranges)" "r < length ranges" "l \<le> r"
    and "k < length ranges" "l \<le> k" "k \<le> r"
    and "seg_start (ranges ! k) \<le> code"
    and "\<forall>j. k < j \<and> j \<le> r \<longrightarrow> code < seg_start (ranges ! j)"
  shows "searchSegment ranges (Some code) l r = k"
  using assms
proof (induction ranges "Some code" l r rule: searchSegment.induct)
  case (1 ranges l r)
  show ?case
  proof (cases "l < r")
    case False
    with "1.prems" show ?thesis by (simp add: searchSegment_stop)
  next
    case True
    let ?c = "(l + r + 1) div 2"
    have c: "l < ?c" "?c \<le> r" using True by auto
    show ?thesis
    proof (cases "code < seg_start (ranges ! ?c)")
      case lt: True
      have "k < ?c"
      proof (rule ccontr)
        assume "\<not> k < ?c"
        then have "?c \<le> k" by simp
        with "1.prems"(1,4) have "seg_start (ranges ! ?c) \<le> seg_start (ranges ! k)"
          by (simp add: sorted_iff_nth_mono)
        with lt "1.prems"(7) show False by simp
      qed
      have "searchSegment ranges (Some code) l (?c - 1) = k"
        using True lt "1.prems" c \<open>k < ?c\<close>
        by (intro "1.hyps"(1)) auto
      then show ?thesis unfolding searchSegment_left [OF True lt] .
    next
      case ge: False
      have "?c \<le> k"
      proof (rule ccontr)
        assume "\<not> ?c \<le> k"
        with c "1.prems"(8) have "code < seg_start (ranges ! ?c)" by simp
        with ge show False by simp
      qed
      have "searchSegment ranges (Some code) ?c r = k"
        using True ge "1.prems" c \<open>?c \<le> k\<close>
        by (intro "1.hyps"(2)) auto
      then show ?thesis unfolding searchSegment_right [OF True ge] .
    qed
  qed
qed

lemma ascending_later:
  assumes "ascending ranges" "k < j" "j < length ranges"
  shows "seg_end (ranges ! k) < seg_start (ranges ! j)"
proof -
  from assms have "seg_end (ranges ! k) < seg_start (ranges ! (k + 1))"
    by (simp add: ascending_def)
  also from assms have "seg_start (ranges ! (k + 1)) \<le> seg_start (ranges ! j)"
    by (simp add: ascending_def sorted_iff_nth_mono)
  finally show ?thesis .
qed

text \<open>
  Claim C2, as amended. For a cmap with at least one segment, whose segments are in ascending
  order and do not overlap: a character whose code lies in a segment without an id array maps
  to \<^verbatim>\<open>(idDelta + code) & 0xFFFF\<close>, and a character whose code lies in no segment maps to 0.
\<close>

theorem charToGlyphIndex_segments:
  assumes "ascending ranges" "ranges \<noteq> []"
  shows "(k < length ranges \<and> seg_start (ranges ! k) \<le> int c \<and> int c \<le> seg_end (ranges ! k) \<and>
          ids (ranges ! k) = None \<longrightarrow>
            charToGlyphIndex ranges (c # s) = Inr (js_and (idDelta (ranges ! k) + int c) 0xFFFF)) \<and>
         ((\<forall>seg \<in> set ranges. \<not> (seg_start seg \<le> int c \<and> int c \<le> seg_end seg)) \<longrightarrow>
            charToGlyphIndex ranges (c # s) = Inr 0)"
proof (intro conjI impI)
  assume a: "k < length ranges \<and> seg_start (ranges ! k) \<le> int c \<and> int c \<le> seg_end (ranges ! k) \<and>
          ids (ranges ! k) = None"
  have "\<forall>j. k < j \<and> j \<le> length ranges - 1 \<longrightarrow> int c < seg_start (ranges ! j)"
  proof (intro allI impI)
    fix j assume j: "k < j \<and> j \<le> length ranges - 1"
    with a have "j < length ranges" by linarith
    with ascending_later [OF assms(1), of k j] j a show "int c < seg_start (ranges ! j)" by simp
  qed
  with assms a have "searchSegment ranges (Some (int c)) 0 (length ranges - 1) = k"
    by (intro searchSegment_finds) (auto simp: ascending_def)
  with a assms(2) show "charToGlyphIndex ranges (c # s)
      = Inr (js_and (idDelta (ranges ! k) + int c) 0xFFFF)"
    by (simp add: charToGlyphIndex_def charCodeAt0_def Let_def)
next
  assume a: "\<forall>seg \<in> set ranges. \<not> (seg_start seg \<le> int c \<and> int c \<le> seg_end seg)"
  let ?l = "searchSegment ranges (Some (int c)) 0 (length ranges - 1)"
  from searchSegment_bounds [of 0 "length ranges - 1" ranges "int c"] assms(2)
  have "?l < length ranges" by (cases ranges) auto
  then have "ranges ! ?l \<in> set ranges" by simp
  with a have "\<not> (seg_start (ranges ! ?l) \<le> int c \<and> int c \<le> seg_end (ranges ! ?l))" by blast
  with assms(2) show "charToGlyphIndex ranges (c # s) = Inr 0"
    by (auto simp add: charToGlyphIndex_def charCodeAt0_def Let_def)
qed

theorem charToGlyphIndex_segments_witness:
  "ascending
     [\<lparr>seg_end = 126, seg_start = 32, seg_length = 94, idDelta = - 29, ids = None\<rparr>,
      \<lparr>seg_end = 65535, seg_start = 65535, seg_length = 0, idDelta = 1, ids = None\<rparr>] \<and>
   charToGlyphIndex
     [\<lparr>seg_end = 126, seg_start = 32, seg_length = 94, idDelta = - 29, ids = None\<rparr>,
      \<lparr>seg_end = 65535, seg_start = 65535, seg_length = 0, idDelta = 1, ids = None\<rparr>] [65]
     = Inr 36 \<and>
   charToGlyphIndex
     [\<lparr>seg_end = 126, seg_start = 32, seg_length = 94, idDelta = - 29, ids = None\<rparr>,
      \<lparr>seg_end = 65535, seg_start = 65535, seg_length = 0, idDelta = 1, ids = None\<rparr>] [200]
     = Inr 0"
proof -
  let ?ranges = "[\<lparr>seg_end = 126, seg_start = 32, seg_length = 94, idDelta = - 29, ids = None\<rparr>,
      \<lparr>seg_end = 65535, seg_start = 65535, seg_length = 0, idDelta = 1, ids = None\<rparr>]"
  have h: "ascending ?ranges" "?ranges \<noteq> []"
    by (simp_all add: ascending_def less_Suc_eq)
  have "charToGlyphIndex ?ranges [65] = Inr (js_and (- 29 + 65) 0xFFFF)"
    using charToGlyphIndex_segments [OF h, of 0 65 "[]"] by simp
  moreover have "charToGlyphIndex ?ranges [200] = Inr 0"
    using charToGlyphIndex_segments [OF h, of _ 200 "[]"] by simp
  ultimately show ?thesis using h by (simp add: js_and_65535)
qed

text \<open>
  Claim C2 as stated fails on a cmap without segments, which is in ascending order and has no
  segment that holds the code: \<^verbatim>\<open>ranges[0]\<close> is \<^verbatim>\<open>undefined\<close> and the lookup raises instead of
  returning 0.
\<close>

theorem charToGlyphIndex_counterexample:
  "ascending [] \<and> charToGlyphIndex [] [65] = Inl TypeError"
  by (simp add: ascending_def charToGlyphIndex_def)

end
